theory Spec2Isabelle
  imports Main "HOL-Library.Word" "HOL-Library.Monad_Syntax"
begin

text \<open>
  A model of osgEarth's \<open>CacheBin.cpp\<close>: the visitor \<open>PrepareForCaching\<close> that readies
  a scene graph for the cache, the visitor \<open>WriteExternalReferencesToCache\<close> that writes the
  images of a graph to a cache bin and renames them, \<open>CacheBin::writeNode\<close>, which runs
  both and writes the graph, and the pseudoloader that reads \<open>.osgearth_cachebin\<close> names
  back from a cache bin. Objects that the graph shares (state sets, state attributes,
  images) live in a store and are referred to by address; the visitors pass the store,
  the log and the state of the cache bin along.
\<close>

section \<open>Strings and file names\<close>

text \<open>
  \<open>std::string::find_last_of\<close>: the greatest position of the string holding one of the
  given characters, \<open>None\<close> standing for \<open>npos\<close>.
\<close>

fun find_last_of :: "string \<Rightarrow> string \<Rightarrow> nat option" where
  "find_last_of [] cs = None"
| "find_last_of (x # xs) cs =
     (case find_last_of xs cs of
        Some i \<Rightarrow> Some (Suc i)
      | None \<Rightarrow> if x \<in> set cs then Some 0 else None)"

text \<open>The path separators of osgDB (\<open>PATH_SEPARATORS\<close>): slash and backslash.\<close>

definition PATH_SEPARATORS :: string where
  "PATH_SEPARATORS = [CHR ''/'', CHR 0x5C]"

text \<open>
  \<open>osgDB::getFileExtension\<close>: the text after the last dot, empty when there is no dot
  or when a path separator follows the last dot.
\<close>

definition getFileExtension :: "string \<Rightarrow> string" where
  "getFileExtension fileName =
     (case find_last_of fileName ''.'' of
        None \<Rightarrow> []
      | Some dot \<Rightarrow>
          (case find_last_of fileName PATH_SEPARATORS of
             None \<Rightarrow> drop (Suc dot) fileName
           | Some slash \<Rightarrow> if dot < slash then [] else drop (Suc dot) fileName))"

text \<open>\<open>tolower\<close> of the C locale, on one byte.\<close>

definition tolower :: "char \<Rightarrow> char" where
  "tolower c =
     (let n = (of_char c :: nat)
      in if 65 \<le> n \<and> n \<le> 90 then char_of (n + 32) else c)"

definition convertToLowerCase :: "string \<Rightarrow> string" where
  "convertToLowerCase s = map tolower s"

definition getLowerCaseFileExtension :: "string \<Rightarrow> string" where
  "getLowerCaseFileExtension filename = convertToLowerCase (getFileExtension filename)"

text \<open>
  \<open>osgDB::getNameLessExtension\<close>: the text before the last dot, the whole name under
  the conditions that make the extension empty.
\<close>

definition getNameLessExtension :: "string \<Rightarrow> string" where
  "getNameLessExtension fileName =
     (case find_last_of fileName ''.'' of
        None \<Rightarrow> fileName
      | Some dot \<Rightarrow>
          (case find_last_of fileName PATH_SEPARATORS of
             None \<Rightarrow> take dot fileName
           | Some slash \<Rightarrow> if dot < slash then fileName else take dot fileName))"

text \<open>
  Modelled from the spec: \<open>osgEarth::startsWith\<close> (StringUtils, not part of the source
  under study), with its default case-sensitive comparison: the identifier "carries the
  namespace prefix".
\<close>

definition startsWith :: "string \<Rightarrow> string \<Rightarrow> bool" where
  "startsWith ref pattern = (take (length pattern) ref = pattern)"

text \<open>
  \<open>operator<<\<close> of an output stream in \<open>std::hex\<close> mode on an unsigned value: lowercase
  digits, most significant first, no leading zero, \<open>0\<close> for zero.
\<close>

definition hexChars :: string where
  "hexChars = ''0123456789abcdef''"

definition hexDigit :: "nat \<Rightarrow> char" where
  "hexDigit d = hexChars ! d"

fun hexDigits :: "nat \<Rightarrow> string" where
  "hexDigits n = (if n < 16 then [hexDigit n] else hexDigits (n div 16) @ [hexDigit (n mod 16)])"

declare hexDigits.simps [simp del]

definition IMAGE_PREFIX :: string where
  "IMAGE_PREFIX = ''i_''"

section \<open>Scene-graph objects\<close>

type_synonym addr = nat

record UserDataContainer =
  userData :: "addr option"
  descriptions :: "string list"

record Object =
  userDataContainer :: "UserDataContainer option"

definition getUserData :: "'a Object_scheme \<Rightarrow> addr option" where
  "getUserData object =
     (case userDataContainer object of None \<Rightarrow> None | Some c \<Rightarrow> userData c)"

datatype WriteHint = NO_PREFERENCE | STORE_INLINE | EXTERNAL_FILE

record Image = Object +
  fileName :: string
  writeHint :: WriteHint
  pixels :: "8 word list"

record Texture = Object +
  unRefImageDataAfterApply :: bool
  images :: "addr option list"

datatype StateAttribute = TextureAttribute Texture | OtherAttribute Object

text \<open>
  \<open>osg::StateSet::AttributeList\<close> is a map from a (type, member) key to a pair of a
  reference to the attribute and an override value; the association list keeps the
  iteration order of the map. A reference may be null.
\<close>

type_synonym RefAttributePair = "addr option \<times> nat"
type_synonym AttributeList = "((nat \<times> nat) \<times> RefAttributePair) list"

record StateSet = Object +
  attributeList :: AttributeList
  textureAttributeList :: "AttributeList list"

record Drawable = Object +
  drawableStateSet :: "addr option"

record NodeData = Object +
  stateSet :: "addr option"

text \<open>
  The node hierarchy as the tree the visitors unfold: a plain node (a group) with its
  children, and a geode with its drawables and the children its \<open>traverse\<close> reaches.
  State sets, state attributes and images are shared between nodes and live in a store.
\<close>

datatype Node =
    Node NodeData "Node list"
  | Geode NodeData "Drawable option list" "Node list"

record Heap =
  stateSets :: "StateSet list"
  attributes :: "StateAttribute list"
  imageObjs :: "Image list"

definition lookup :: "'a list \<Rightarrow> addr \<Rightarrow> 'a option" where
  "lookup xs a = (if a < length xs then Some (xs ! a) else None)"

section \<open>The cache bin and the load context\<close>

datatype RecordStatus = STATUS_NOT_FOUND | STATUS_OK | STATUS_EXPIRED

type_synonym Config = "(string \<times> string) list"

datatype CacheObject = ImageObject Image | NodeObject Node Heap

text \<open>
  \<open>osgDB::Options\<close>, as far as the cache uses it: the plugin string data and the cache
  bin the caller placed in it.
\<close>

record 'b Options =
  pluginStringData :: "(string \<times> string) list"
  cacheBin :: "'b option"

text \<open>
  Modelled from the spec: \<open>osgEarth::ReadResult\<close> (IOTypes, not part of the source under
  study): \<open>Result{object|failure}\<close>, where \<open>succeeded\<close> holds of the first and
  \<open>getObject\<close>, \<open>getImage\<close> read it.
\<close>

datatype 'a Result = Succeeded 'a | Failed

fun succeeded :: "'a Result \<Rightarrow> bool" where
  "succeeded (Succeeded x) = True"
| "succeeded Failed = False"

text \<open>
  The cache bin is an abstract class: its virtual operations are a record of functions
  over the state \<open>'b\<close> of the bin. A write returns its result and the new state.
\<close>

record 'b CacheBinOps =
  bin_write :: "'b \<Rightarrow> string \<Rightarrow> CacheObject \<Rightarrow> Config \<Rightarrow> 'b Options option \<Rightarrow> bool \<times> 'b"
  bin_readObject :: "'b \<Rightarrow> string \<Rightarrow> 'b Options option \<Rightarrow> CacheObject Result"
  bin_readImage :: "'b \<Rightarrow> string \<Rightarrow> 'b Options option \<Rightarrow> Image Result"
  bin_getRecordStatus :: "'b \<Rightarrow> string \<Rightarrow> RecordStatus"

text \<open>
  Modelled from the spec: \<open>CacheBin::get\<close> (declared in the CacheBin header, not part of
  the source under study): the cache bin of the load context, null when the options are
  null or hold none.
\<close>

definition CacheBin_get :: "'b Options option \<Rightarrow> 'b option" where
  "CacheBin_get readOptions =
     (case readOptions of None \<Rightarrow> None | Some opts \<Rightarrow> cacheBin opts)"

section \<open>The pseudoloader\<close>

datatype ReadStatus =
    NOT_IMPLEMENTED | FILE_NOT_HANDLED | FILE_NOT_FOUND | ERROR_IN_READING_FILE
  | FILE_LOADED | FILE_LOADED_FROM_CACHE | FILE_REQUESTED | INSUFFICIENT_MEMORY_TO_LOAD

text \<open>
  \<open>osgDB::ReaderWriter::ReadResult\<close>: built from a status alone (no object), or from an
  object, with the status \<open>FILE_LOADED\<close>.
\<close>

record ReadResult =
  status :: ReadStatus
  rr_object :: "CacheObject option"

definition ReadResult_status :: "ReadStatus \<Rightarrow> ReadResult" where
  "ReadResult_status s = \<lparr>status = s, rr_object = None\<rparr>"

definition ReadResult_object :: "CacheObject \<Rightarrow> ReadResult" where
  "ReadResult_object obj = \<lparr>status = FILE_LOADED, rr_object = Some obj\<rparr>"

definition readObject :: "'b CacheBinOps \<Rightarrow> string \<Rightarrow> 'b Options option \<Rightarrow> ReadResult" where
  "readObject ops url readOptions =
     (if getLowerCaseFileExtension url \<noteq> ''osgearth_cachebin''
      then ReadResult_status FILE_NOT_HANDLED
      else case CacheBin_get readOptions of
        None \<Rightarrow> ReadResult_status FILE_NOT_FOUND
      | Some bin \<Rightarrow>
          (let key = getNameLessExtension url
           in case bin_readObject ops bin key readOptions of
                Succeeded obj \<Rightarrow> ReadResult_object obj
              | Failed \<Rightarrow> ReadResult_status FILE_NOT_FOUND))"

definition readImage :: "'b CacheBinOps \<Rightarrow> string \<Rightarrow> 'b Options option \<Rightarrow> ReadResult" where
  "readImage ops url readOptions =
     (if getLowerCaseFileExtension url \<noteq> ''osgearth_cachebin''
      then ReadResult_status FILE_NOT_HANDLED
      else case CacheBin_get readOptions of
        None \<Rightarrow> ReadResult_status FILE_NOT_FOUND
      | Some bin \<Rightarrow>
          (let key = getNameLessExtension url
           in case bin_readImage ops bin key readOptions of
                Succeeded img \<Rightarrow> ReadResult_object (ImageObject img)
              | Failed \<Rightarrow> ReadResult_status FILE_NOT_FOUND))"

section \<open>The state the visitors work on\<close>

text \<open>
  The log that \<open>OE_WARN\<close> and \<open>OE_INFO\<close> write to, the state of the cache bin, and the
  record of the writes issued to the bin, in the order of the calls.
\<close>

datatype LogEntry = OE_WARN string | OE_INFO string

record 'b World = Heap +
  logged :: "LogEntry list"
  binState :: 'b
  binWrites :: "(string \<times> CacheObject) list"

section \<open>PrepareForCaching\<close>

record PrepareForCaching =
  textures :: "32 word"
  userDataClears :: "32 word"

definition applyUserData ::
  "'a Object_scheme \<Rightarrow> PrepareForCaching \<Rightarrow> 'a Object_scheme \<times> PrepareForCaching" where
  "applyUserData object v =
     (object\<lparr>userDataContainer := None\<rparr>,
      if getUserData object \<noteq> None then v\<lparr>userDataClears := userDataClears v + 1\<rparr> else v)"

text \<open>
  \<open>applyUserData\<close> on an object of the store. Dereferencing an address that holds no
  object, or a null reference, is undefined behaviour of the program: the model returns
  \<open>None\<close> there.
\<close>

definition applyUserData_attribute ::
  "addr \<Rightarrow> PrepareForCaching \<times> 'b World \<Rightarrow> (PrepareForCaching \<times> 'b World) option" where
  "applyUserData_attribute a s =
     (case lookup (attributes (snd s)) a of
        None \<Rightarrow> None
      | Some (TextureAttribute t) \<Rightarrow>
          (let (t', v') = applyUserData t (fst s)
           in Some (v', (snd s)\<lparr>attributes := (attributes (snd s))[a := TextureAttribute t']\<rparr>))
      | Some (OtherAttribute obj) \<Rightarrow>
          (let (obj', v') = applyUserData obj (fst s)
           in Some (v', (snd s)\<lparr>attributes := (attributes (snd s))[a := OtherAttribute obj']\<rparr>)))"

definition applyUserData_image ::
  "addr \<Rightarrow> PrepareForCaching \<times> 'b World \<Rightarrow> (PrepareForCaching \<times> 'b World) option" where
  "applyUserData_image a s =
     (case lookup (imageObjs (snd s)) a of
        None \<Rightarrow> None
      | Some img \<Rightarrow>
          (let (img', v') = applyUserData img (fst s)
           in Some (v', (snd s)\<lparr>imageObjs := (imageObjs (snd s))[a := img']\<rparr>)))"

text \<open>The loop over the attribute list \<open>a0\<close>: each reference is dereferenced unchecked.\<close>

fun apply_attributes ::
  "AttributeList \<Rightarrow> PrepareForCaching \<times> 'b World \<Rightarrow> (PrepareForCaching \<times> 'b World) option" where
  "apply_attributes [] s = Some s"
| "apply_attributes ((key, (sa, ov)) # rest) s =
     (case sa of
        None \<Rightarrow> None
      | Some a \<Rightarrow>
          (case applyUserData_attribute a s of
             None \<Rightarrow> None
           | Some s' \<Rightarrow> apply_attributes rest s'))"

text \<open>The loop over the images of the cloned texture: null images are skipped.\<close>

fun apply_images ::
  "addr option list \<Rightarrow> PrepareForCaching \<times> 'b World \<Rightarrow> (PrepareForCaching \<times> 'b World) option" where
  "apply_images [] s = Some s"
| "apply_images (None # rest) s = apply_images rest s"
| "apply_images (Some i # rest) s =
     (case applyUserData_image i s of
        None \<Rightarrow> None
      | Some s' \<Rightarrow> apply_images rest s')"

text \<open>
  The body of the loop over one texture unit's attribute list. \<open>cloneable a\<close> tells
  whether \<open>osg::clone\<close> of the texture at \<open>a\<close> returns an object; the clone is a new
  object of the store, a shallow copy: it shares the images and copies the fields.
\<close>

definition apply_textureEntry ::
  "(addr \<Rightarrow> bool) \<Rightarrow> (nat \<times> nat) \<times> RefAttributePair \<Rightarrow> PrepareForCaching \<times> 'b World \<Rightarrow>
     (((nat \<times> nat) \<times> RefAttributePair) \<times> PrepareForCaching \<times> 'b World) option" where
  "apply_textureEntry cloneable j s =
     (case fst (snd j) of
        None \<Rightarrow> Some (j, s)
      | Some sa \<Rightarrow>
          (case lookup (attributes (snd s)) sa of
             None \<Rightarrow> None
           | Some (OtherAttribute obj) \<Rightarrow>
               (case applyUserData_attribute sa s of
                  None \<Rightarrow> None
                | Some s' \<Rightarrow> Some (j, s'))
           | Some (TextureAttribute tex) \<Rightarrow>
               (let tex' = tex\<lparr>unRefImageDataAfterApply := False\<rparr>;
                    w1 = (snd s)\<lparr>attributes := (attributes (snd s))[sa := TextureAttribute tex']\<rparr>
                in if cloneable sa
                   then
                     (let texClone = length (attributes w1);
                          w2 = w1\<lparr>attributes := attributes w1 @ [TextureAttribute tex']\<rparr>
                      in case apply_images (images tex') (fst s, w2) of
                           None \<Rightarrow> None
                         | Some s3 \<Rightarrow>
                             (case applyUserData_attribute texClone s3 of
                                None \<Rightarrow> None
                              | Some s4 \<Rightarrow> Some ((fst j, (Some texClone, snd (snd j))), s4)))
                   else
                     Some (j, (fst s,
                       w1\<lparr>logged := logged w1 @
                         [OE_WARN ''[PrepareForCaching] Texture clone failed.\<newline>'']\<rparr>)))))"

fun apply_textureAttributes ::
  "(addr \<Rightarrow> bool) \<Rightarrow> AttributeList \<Rightarrow> PrepareForCaching \<times> 'b World \<Rightarrow>
     (AttributeList \<times> PrepareForCaching \<times> 'b World) option" where
  "apply_textureAttributes cloneable [] s = Some ([], s)"
| "apply_textureAttributes cloneable (j # rest) s =
     (case apply_textureEntry cloneable j s of
        None \<Rightarrow> None
      | Some (j', s') \<Rightarrow>
          (case apply_textureAttributes cloneable rest s' of
             None \<Rightarrow> None
           | Some (rest', s'') \<Rightarrow> Some (j' # rest', s'')))"

fun apply_textureUnits ::
  "(addr \<Rightarrow> bool) \<Rightarrow> AttributeList list \<Rightarrow> PrepareForCaching \<times> 'b World \<Rightarrow>
     (AttributeList list \<times> PrepareForCaching \<times> 'b World) option" where
  "apply_textureUnits cloneable [] s = Some ([], s)"
| "apply_textureUnits cloneable (b # rest) s =
     (case apply_textureAttributes cloneable b s of
        None \<Rightarrow> None
      | Some (b', s') \<Rightarrow>
          (case apply_textureUnits cloneable rest s' of
             None \<Rightarrow> None
           | Some (rest', s'') \<Rightarrow> Some (b' # rest', s'')))"

text \<open>
  \<open>apply(osg::StateSet*)\<close>: nothing on a null state set; otherwise the attribute list,
  the texture attribute lists (whose entries the loop may replace), and the user data of
  the state set itself.
\<close>

definition apply_StateSet ::
  "(addr \<Rightarrow> bool) \<Rightarrow> addr option \<Rightarrow> PrepareForCaching \<times> 'b World \<Rightarrow>
     (PrepareForCaching \<times> 'b World) option" where
  "apply_StateSet cloneable ss s =
     (case ss of
        None \<Rightarrow> Some s
      | Some p \<Rightarrow>
          (case lookup (stateSets (snd s)) p of
             None \<Rightarrow> None
           | Some stateset \<Rightarrow>
               (case apply_attributes (attributeList stateset) s of
                  None \<Rightarrow> None
                | Some s1 \<Rightarrow>
                    (case apply_textureUnits cloneable (textureAttributeList stateset) s1 of
                       None \<Rightarrow> None
                     | Some (a, s2) \<Rightarrow>
                         (let (stateset', v') =
                                applyUserData (stateset\<lparr>textureAttributeList := a\<rparr>) (fst s2)
                          in Some (v',
                               (snd s2)\<lparr>stateSets := (stateSets (snd s2))[p := stateset']\<rparr>))))))"

definition apply_Drawable ::
  "(addr \<Rightarrow> bool) \<Rightarrow> Drawable option \<Rightarrow> PrepareForCaching \<times> 'b World \<Rightarrow>
     (Drawable option \<times> PrepareForCaching \<times> 'b World) option" where
  "apply_Drawable cloneable drawable s =
     (case drawable of
        None \<Rightarrow> Some (None, s)
      | Some d \<Rightarrow>
          (case apply_StateSet cloneable (drawableStateSet d) s of
             None \<Rightarrow> None
           | Some s1 \<Rightarrow>
               (let (d', v') = applyUserData d (fst s1) in Some (Some d', (v', snd s1)))))"

fun apply_Drawables ::
  "(addr \<Rightarrow> bool) \<Rightarrow> Drawable option list \<Rightarrow> PrepareForCaching \<times> 'b World \<Rightarrow>
     (Drawable option list \<times> PrepareForCaching \<times> 'b World) option" where
  "apply_Drawables cloneable [] s = Some ([], s)"
| "apply_Drawables cloneable (d # rest) s =
     (case apply_Drawable cloneable d s of
        None \<Rightarrow> None
      | Some (d', s') \<Rightarrow>
          (case apply_Drawables cloneable rest s' of
             None \<Rightarrow> None
           | Some (rest', s'') \<Rightarrow> Some (d' # rest', s'')))"

text \<open>
  \<open>accept\<close> dispatches on the node: \<open>apply(osg::Node&)\<close> for a plain node,
  \<open>apply(osg::Geode&)\<close> for a geode, which handles the drawables and then does what
  \<open>apply(osg::Node&)\<close> does. \<open>traverse\<close> visits the children in order.
\<close>

fun accept ::
  "(addr \<Rightarrow> bool) \<Rightarrow> Node \<Rightarrow> PrepareForCaching \<times> 'b World \<Rightarrow>
     (Node \<times> PrepareForCaching \<times> 'b World) option"
and traverse ::
  "(addr \<Rightarrow> bool) \<Rightarrow> Node list \<Rightarrow> PrepareForCaching \<times> 'b World \<Rightarrow>
     (Node list \<times> PrepareForCaching \<times> 'b World) option" where
  "accept cloneable (Node node children) s =
     (case apply_StateSet cloneable (stateSet node) s of
        None \<Rightarrow> None
      | Some s1 \<Rightarrow>
          (let (node', v') = applyUserData node (fst s1)
           in case traverse cloneable children (v', snd s1) of
                None \<Rightarrow> None
              | Some (children', s2) \<Rightarrow> Some (Node node' children', s2)))"
| "accept cloneable (Geode geode drawables children) s =
     (case apply_Drawables cloneable drawables s of
        None \<Rightarrow> None
      | Some (drawables', s0) \<Rightarrow>
          (case apply_StateSet cloneable (stateSet geode) s0 of
             None \<Rightarrow> None
           | Some s1 \<Rightarrow>
               (let (geode', v') = applyUserData geode (fst s1)
                in case traverse cloneable children (v', snd s1) of
                     None \<Rightarrow> None
                   | Some (children', s2) \<Rightarrow> Some (Geode geode' drawables' children', s2))))"
| "traverse cloneable [] s = Some ([], s)"
| "traverse cloneable (child # rest) s =
     (case accept cloneable child s of
        None \<Rightarrow> None
      | Some (child', s') \<Rightarrow>
          (case traverse cloneable rest s' of
             None \<Rightarrow> None
           | Some (rest', s'') \<Rightarrow> Some (child' # rest', s'')))"

definition PrepareForCaching_new :: PrepareForCaching where
  "PrepareForCaching_new = \<lparr>textures = 0, userDataClears = 0\<rparr>"

section \<open>WriteExternalReferencesToCache\<close>

text \<open>
  Modelled from the spec: \<open>Registry::cloneOrCreateOptions\<close> (osgEarth Registry, not part
  of the source under study): the per-write options are a copy of the write options, new
  options when there are none.
\<close>

definition cloneOrCreateOptions :: "'b Options option \<Rightarrow> 'b Options" where
  "cloneOrCreateOptions input =
     (case input of
        None \<Rightarrow> \<lparr>pluginStringData = [], cacheBin = None\<rparr>
      | Some opts \<Rightarrow> opts)"

definition setPluginStringData :: "string \<Rightarrow> string \<Rightarrow> 'b Options \<Rightarrow> 'b Options" where
  "setPluginStringData s v opts =
     opts\<lparr>pluginStringData := (s, v) # filter (\<lambda>p. fst p \<noteq> s) (pluginStringData opts)\<rparr>"

text \<open>
  The local \<open>cacheKey\<close> of \<open>apply(osg::Image&)\<close>: the prefix and the hash of the path,
  streamed in hexadecimal. \<open>osgEarth::hashString\<close> (StringUtils) is not part of the source
  under study and is a parameter: any function from strings to \<open>unsigned\<close>.
\<close>

definition cacheKey :: "(string \<Rightarrow> 32 word) \<Rightarrow> string \<Rightarrow> string" where
  "cacheKey hashString path = IMAGE_PREFIX @ hexDigits (unat (hashString path))"

text \<open>
  \<open>apply(osg::Image&)\<close> on one image. The mutex orders the calls of different threads;
  in this sequential model the check of the prefix under the lock repeats the check
  before it. The three-argument \<open>write\<close> of the bin passes an empty \<open>Config\<close>.
\<close>

definition writeRefs_apply ::
  "(string \<Rightarrow> 32 word) \<Rightarrow> 'b CacheBinOps \<Rightarrow> 'b Options option \<Rightarrow> Image \<Rightarrow> 'b World \<Rightarrow>
     Image \<times> 'b World" where
  "writeRefs_apply hashString ops writeOptions img w =
     (let path = fileName img;
          w0 = (if path = []
                then w\<lparr>logged := logged w @
                       [OE_WARN ''[WriteImagesToCache] ERROR image with blank filename.\<newline>'']\<rparr>
                else w)
      in if \<not> startsWith path IMAGE_PREFIX
         then
           if \<not> startsWith path IMAGE_PREFIX
           then
             (let key = cacheKey hashString path;
                  img' = img\<lparr>fileName := key @ ''.osgearth_cachebin'',
                             writeHint := EXTERNAL_FILE\<rparr>;
                  rs = bin_getRecordStatus ops (binState w0) key
              in if rs \<noteq> STATUS_OK
                 then
                   (let dbo = setPluginStringData ''WriteImageHint'' ''IncludeData''
                                (cloneOrCreateOptions writeOptions);
                        w1 = w0\<lparr>logged := logged w0 @
                               [OE_INFO (''[WriteImagesToCache] Writing image \"'' @ path @
                                  ''\" to the cache as \"'' @ key @ ''\"\<newline>'')]\<rparr>;
                        r = bin_write ops (binState w1) key (ImageObject img') [] (Some dbo);
                        w2 = w1\<lparr>binState := snd r,
                                binWrites := binWrites w1 @ [(key, ImageObject img')]\<rparr>
                    in if \<not> fst r
                       then (img', w2\<lparr>logged := logged w2 @
                               [OE_WARN ''[WriteImagesToCache] ...error, write failed!\<newline>'']\<rparr>)
                       else (img', w2))
                 else (img', w0))
           else (img, w0)
         else (img, w0))"

text \<open>The same on an image of the store: the image at the address is replaced.\<close>

definition writeRefs_apply_Image ::
  "(string \<Rightarrow> 32 word) \<Rightarrow> 'b CacheBinOps \<Rightarrow> 'b Options option \<Rightarrow> addr \<Rightarrow> 'b World \<Rightarrow>
     'b World option" where
  "writeRefs_apply_Image hashString ops writeOptions a w =
     (case lookup (imageObjs w) a of
        None \<Rightarrow> None
      | Some img \<Rightarrow>
          (let r = writeRefs_apply hashString ops writeOptions img w
           in Some ((snd r)\<lparr>imageObjs := (imageObjs (snd r))[a := fst r]\<rparr>)))"

text \<open>
  Modelled from the spec: the traversal of \<open>osgEarth::TextureAndImageVisitor\<close>
  (ImageUtils, not part of the source under study), which visits "every Image Resource
  reachable from any Texture Attribute in the graph": the images of the textures in the
  texture attribute lists of the state sets of the nodes and drawables. The order follows
  the traversal of \<open>PrepareForCaching\<close>; nothing proved below depends on it. The
  externalizer changes images only, so the addresses it visits are those read from the
  state sets and attributes as they are when it starts.
\<close>

definition imagesOfEntry ::
  "StateAttribute list \<Rightarrow> (nat \<times> nat) \<times> RefAttributePair \<Rightarrow> addr list option" where
  "imagesOfEntry attrs j =
     (case fst (snd j) of
        None \<Rightarrow> Some []
      | Some sa \<Rightarrow>
          (case lookup attrs sa of
             None \<Rightarrow> None
           | Some (OtherAttribute obj) \<Rightarrow> Some []
           | Some (TextureAttribute tex) \<Rightarrow> Some (List.map_filter id (images tex))))"

fun concatOptions :: "'a list option list \<Rightarrow> 'a list option" where
  "concatOptions [] = Some []"
| "concatOptions (x # rest) =
     (case x of
        None \<Rightarrow> None
      | Some xs \<Rightarrow> (case concatOptions rest of None \<Rightarrow> None | Some ys \<Rightarrow> Some (xs @ ys)))"

definition imagesOfStateSet ::
  "StateSet list \<Rightarrow> StateAttribute list \<Rightarrow> addr option \<Rightarrow> addr list option" where
  "imagesOfStateSet ssets attrs ss =
     (case ss of
        None \<Rightarrow> Some []
      | Some p \<Rightarrow>
          (case lookup ssets p of
             None \<Rightarrow> None
           | Some stateset \<Rightarrow>
               concatOptions (map (imagesOfEntry attrs) (concat (textureAttributeList stateset)))))"

definition imagesOfDrawable ::
  "StateSet list \<Rightarrow> StateAttribute list \<Rightarrow> Drawable option \<Rightarrow> addr list option" where
  "imagesOfDrawable ssets attrs drawable =
     (case drawable of
        None \<Rightarrow> Some []
      | Some d \<Rightarrow> imagesOfStateSet ssets attrs (drawableStateSet d))"

fun imagesOfNode :: "StateSet list \<Rightarrow> StateAttribute list \<Rightarrow> Node \<Rightarrow> addr list option" where
  "imagesOfNode ssets attrs (Node node children) =
     concatOptions (imagesOfStateSet ssets attrs (stateSet node) #
                    map (imagesOfNode ssets attrs) children)"
| "imagesOfNode ssets attrs (Geode geode drawables children) =
     concatOptions (map (imagesOfDrawable ssets attrs) drawables @
                    imagesOfStateSet ssets attrs (stateSet geode) #
                    map (imagesOfNode ssets attrs) children)"

fun writeRefs_apply_Images ::
  "(string \<Rightarrow> 32 word) \<Rightarrow> 'b CacheBinOps \<Rightarrow> 'b Options option \<Rightarrow> addr list \<Rightarrow> 'b World \<Rightarrow>
     'b World option" where
  "writeRefs_apply_Images hashString ops writeOptions [] w = Some w"
| "writeRefs_apply_Images hashString ops writeOptions (a # rest) w =
     (case writeRefs_apply_Image hashString ops writeOptions a w of
        None \<Rightarrow> None
      | Some w' \<Rightarrow> writeRefs_apply_Images hashString ops writeOptions rest w')"

definition writeRefs_accept ::
  "(string \<Rightarrow> 32 word) \<Rightarrow> 'b CacheBinOps \<Rightarrow> 'b Options option \<Rightarrow> Node \<Rightarrow> 'b World \<Rightarrow>
     'b World option" where
  "writeRefs_accept hashString ops writeOptions node w =
     (case imagesOfNode (stateSets w) (attributes w) node of
        None \<Rightarrow> None
      | Some as \<Rightarrow> writeRefs_apply_Images hashString ops writeOptions as w)"

section \<open>CacheBin::writeNode\<close>

text \<open>
  The three steps of \<open>writeNode\<close>: the preparation, the external references, and the
  write of the graph, whose result is dropped; the function returns \<open>true\<close>. The object
  written is the node with the store it refers to. \<open>None\<close> is the undefined behaviour of
  a dangling or null reference met on the way.
\<close>

definition writeNode ::
  "(string \<Rightarrow> 32 word) \<Rightarrow> (addr \<Rightarrow> bool) \<Rightarrow> 'b CacheBinOps \<Rightarrow> string \<Rightarrow> Node \<Rightarrow> Config \<Rightarrow>
     'b Options option \<Rightarrow> 'b World \<Rightarrow> (bool \<times> Node \<times> 'b World) option" where
  "writeNode hashString cloneable ops key node metadata writeOptions w =
     (case accept cloneable node (PrepareForCaching_new, w) of
        None \<Rightarrow> None
      | Some (node', prep, w1) \<Rightarrow>
          (case writeRefs_accept hashString ops writeOptions node' w1 of
             None \<Rightarrow> None
           | Some w2 \<Rightarrow>
               (let obj = NodeObject node' (Heap.truncate w2);
                    r = bin_write ops (binState w2) key obj metadata writeOptions;
                    w3 = w2\<lparr>binState := snd r, binWrites := binWrites w2 @ [(key, obj)]\<rparr>
                in Some (True, node', w3))))"

section \<open>Cache bins used in the examples\<close>

text \<open>
  A cache bin held in memory, as an association list from keys to the objects written:
  a write always succeeds, a record is \<open>STATUS_OK\<close> once written. The second bin
  refuses every write. Both serve as concrete bins for the examples below.
\<close>

type_synonym MemBin = "(string \<times> CacheObject) list"

definition memBinOps :: "MemBin CacheBinOps" where
  "memBinOps =
     \<lparr>bin_write = (\<lambda>b key obj meta opts. (True, (key, obj) # b)),
      bin_readObject = (\<lambda>b key opts.
         case map_of b key of Some obj \<Rightarrow> Succeeded obj | None \<Rightarrow> Failed),
      bin_readImage = (\<lambda>b key opts.
         case map_of b key of Some (ImageObject img) \<Rightarrow> Succeeded img | _ \<Rightarrow> Failed),
      bin_getRecordStatus = (\<lambda>b key.
         case map_of b key of Some obj \<Rightarrow> STATUS_OK | None \<Rightarrow> STATUS_NOT_FOUND)\<rparr>"

definition failingBinOps :: "MemBin CacheBinOps" where
  "failingBinOps = memBinOps\<lparr>bin_write := (\<lambda>b key obj meta opts. (False, b))\<rparr>"

definition exampleImage :: "string \<Rightarrow> Image" where
  "exampleImage name =
     \<lparr>userDataContainer = None, fileName = name, writeHint = NO_PREFERENCE, pixels = [1, 2, 3]\<rparr>"

section \<open>Hexadecimal digits read back\<close>

text \<open>
  The value of a string of hexadecimal digits, most significant digit first: the inverse
  that the rendering of a number is measured against.
\<close>

definition hexDigitValue :: "char \<Rightarrow> nat" where
  "hexDigitValue c = length (takeWhile (\<lambda>d. d \<noteq> c) hexChars)"

definition hexValue :: "string \<Rightarrow> nat" where
  "hexValue s = foldl (\<lambda>acc c. 16 * acc + hexDigitValue c) 0 s"

section \<open>Example graphs and bins\<close>

text \<open>
  A hash function for the examples (any function will do: \<open>hashString\<close> is a
  parameter), a bin that reports every record as expired, a bin that already holds the
  example image, and a small graph: a node and the drawable of a geode below it share one
  state set, whose texture slot holds a texture with user data, the release flag set and one
  image; its attribute list holds another attribute.
\<close>

definition exampleHash :: "string \<Rightarrow> 32 word" where
  "exampleHash path = (if path = ''/data/tex.png'' then 0xa1b2c3 else of_nat (length path))"

definition expiredBinOps :: "MemBin CacheBinOps" where
  "expiredBinOps = memBinOps\<lparr>bin_getRecordStatus := (\<lambda>b key. STATUS_EXPIRED)\<rparr>"

definition emptyWorld :: "MemBin World" where
  "emptyWorld = \<lparr>stateSets = [], attributes = [], imageObjs = [], logged = [], binState = [],
     binWrites = []\<rparr>"

definition cachedBin :: MemBin where
  "cachedBin = [(''i_a1b2c3'', ImageObject (exampleImage ''i_a1b2c3.osgearth_cachebin''))]"

definition blankWorld :: "MemBin World" where
  "blankWorld =
     emptyWorld\<lparr>imageObjs := [exampleImage [], (exampleImage [])\<lparr>pixels := [7]\<rparr>],
       binState := [(''i_0'', ImageObject (exampleImage ''i_0.osgearth_cachebin''))]\<rparr>"

definition exampleTexture :: Texture where
  "exampleTexture =
     \<lparr>userDataContainer = Some \<lparr>userData = Some 5, descriptions = []\<rparr>,
      unRefImageDataAfterApply = True, images = [Some 0, None]\<rparr>"

definition exampleStateSet :: StateSet where
  "exampleStateSet =
     \<lparr>userDataContainer = None, attributeList = [((0, 0), (Some 1, 0))],
      textureAttributeList = [[((1, 0), (Some 0, 0))]]\<rparr>"

definition exampleWorld :: "MemBin World" where
  "exampleWorld =
     \<lparr>stateSets = [exampleStateSet],
      attributes = [TextureAttribute exampleTexture,
        OtherAttribute \<lparr>userDataContainer = Some \<lparr>userData = Some 6, descriptions = []\<rparr>\<rparr>],
      imageObjs = [exampleImage ''/data/tex.png''],
      logged = [], binState = [], binWrites = []\<rparr>"

definition exampleNode :: Node where
  "exampleNode =
     Node \<lparr>userDataContainer = None, stateSet = Some 0\<rparr>
       [Geode \<lparr>userDataContainer = None, stateSet = None\<rparr>
          [Some \<lparr>userDataContainer = None, drawableStateSet = Some 0\<rparr>, None] []]"

definition exampleEntry :: "(nat \<times> nat) \<times> RefAttributePair" where
  "exampleEntry = ((1, 0), (Some 0, 0))"

definition neverCloneable :: "addr \<Rightarrow> bool" where
  "neverCloneable a = False"

definition alwaysCloneable :: "addr \<Rightarrow> bool" where
  "alwaysCloneable a = True"

definition exampleWorldCloned :: "MemBin World" where
  "exampleWorldCloned =
     exampleWorld\<lparr>
       stateSets := [exampleStateSet\<lparr>textureAttributeList := [[((1, 0), (Some 3, 0))]]\<rparr>],
       attributes :=
         [TextureAttribute (exampleTexture\<lparr>unRefImageDataAfterApply := False\<rparr>),
          OtherAttribute \<lparr>userDataContainer = None\<rparr>,
          TextureAttribute (exampleTexture\<lparr>userDataContainer := None,
            unRefImageDataAfterApply := False\<rparr>),
          TextureAttribute (exampleTexture\<lparr>userDataContainer := None,
            unRefImageDataAfterApply := False\<rparr>)]\<rparr>"

definition exampleWorldExternalized :: "MemBin World" where
  "exampleWorldExternalized =
     the (writeRefs_accept exampleHash memBinOps None exampleNode exampleWorld)"

section \<open>Well-formed stores\<close>

text \<open>
  \<open>osg::StateSet\<close> keeps texture attributes in the texture attribute lists only
  (\<open>setAttribute\<close> passes a texture on to \<open>setTextureAttribute\<close>): no entry of an
  attribute list refers to a texture.
\<close>

definition attributeListsHoldNoTexture :: "'b World \<Rightarrow> bool" where
  "attributeListsHoldNoTexture w \<longleftrightarrow>
     (\<forall>ss \<in> set (stateSets w). \<forall>j \<in> set (attributeList ss).
        case fst (snd j) of
          None \<Rightarrow> True
        | Some a \<Rightarrow>
            (case lookup (attributes w) a of
               Some (TextureAttribute t) \<Rightarrow> False
             | _ \<Rightarrow> True))"

text \<open>
  A graph is well formed when every reference in it refers to an object of the store:
  the state sets of the nodes and drawables, the attributes of the texture attribute
  lists (or null) and of the attribute lists (never null), and the images of the
  textures (or null).
\<close>

definition pointerValid :: "nat \<Rightarrow> addr option \<Rightarrow> bool" where
  "pointerValid len p = (case p of None \<Rightarrow> True | Some a \<Rightarrow> a < len)"

definition entryValid :: "nat \<Rightarrow> (nat \<times> nat) \<times> RefAttributePair \<Rightarrow> bool" where
  "entryValid len j = pointerValid len (fst (snd j))"

definition entryBound :: "nat \<Rightarrow> (nat \<times> nat) \<times> RefAttributePair \<Rightarrow> bool" where
  "entryBound len j = (case fst (snd j) of None \<Rightarrow> False | Some a \<Rightarrow> a < len)"

definition stateSetValid :: "nat \<Rightarrow> StateSet \<Rightarrow> bool" where
  "stateSetValid len ss \<longleftrightarrow>
     list_all (entryBound len) (attributeList ss) \<and>
     list_all (list_all (entryValid len)) (textureAttributeList ss)"

definition attributeValid :: "nat \<Rightarrow> StateAttribute \<Rightarrow> bool" where
  "attributeValid len x =
     (case x of
        TextureAttribute t \<Rightarrow> list_all (pointerValid len) (images t)
      | OtherAttribute obj \<Rightarrow> True)"

definition heapValid :: "'b World \<Rightarrow> bool" where
  "heapValid w \<longleftrightarrow>
     list_all (stateSetValid (length (attributes w))) (stateSets w) \<and>
     list_all (attributeValid (length (imageObjs w))) (attributes w)"

definition drawableValid :: "nat \<Rightarrow> Drawable option \<Rightarrow> bool" where
  "drawableValid len d =
     (case d of None \<Rightarrow> True | Some dr \<Rightarrow> pointerValid len (drawableStateSet dr))"

fun nodeValid :: "nat \<Rightarrow> Node \<Rightarrow> bool" where
  "nodeValid len (Node node children) \<longleftrightarrow>
     pointerValid len (stateSet node) \<and> list_all (nodeValid len) children"
| "nodeValid len (Geode geode drawables children) \<longleftrightarrow>
     list_all (drawableValid len) drawables \<and> pointerValid len (stateSet geode) \<and>
     list_all (nodeValid len) children"

definition wellFormed :: "'b World \<Rightarrow> Node \<Rightarrow> bool" where
  "wellFormed w node \<longleftrightarrow> heapValid w \<and> nodeValid (length (stateSets w)) node"

section \<open>Relations used in the proofs\<close>

text \<open>
  The image as \<open>apply(osg::Image&)\<close> rewrites it, and the options of its write.
\<close>

definition rewritten :: "(string \<Rightarrow> 32 word) \<Rightarrow> Image \<Rightarrow> Image" where
  "rewritten hashString img =
     img\<lparr>fileName := cacheKey hashString (fileName img) @ ''.osgearth_cachebin'',
         writeHint := EXTERNAL_FILE\<rparr>"

definition imageWriteOptions :: "'b Options option \<Rightarrow> 'b Options option" where
  "imageWriteOptions writeOptions =
     Some (setPluginStringData ''WriteImageHint'' ''IncludeData'' (cloneOrCreateOptions writeOptions))"

text \<open>
  The image at an address carries the prefix.
\<close>

definition prefixedAt :: "'b World \<Rightarrow> addr \<Rightarrow> bool" where
  "prefixedAt w a \<longleftrightarrow>
     a < length (imageObjs w) \<and> startsWith (fileName (imageObjs w ! a)) IMAGE_PREFIX"

text \<open>
  The image at an address has an empty file name or the file name that an empty one is
  rewritten to.
\<close>

definition blankOrKeyed :: "(string \<Rightarrow> 32 word) \<Rightarrow> 'b World \<Rightarrow> addr \<Rightarrow> bool" where
  "blankOrKeyed hashString w a \<longleftrightarrow>
     a < length (imageObjs w) \<and>
     (fileName (imageObjs w ! a) = [] \<or>
      fileName (imageObjs w ! a) = cacheKey hashString [] @ ''.osgearth_cachebin'')"

text \<open>
  What one step of the preparation may do to the attribute at address \<open>a\<close>, where
  \<open>n\<close> is the number of attributes before the visit: the kind stays; a texture keeps its
  images, its release flag may only be cleared, and its user data may only be removed
  at an address that did not exist before the visit. \<open>step\<close> adds that every new
  attribute is a texture without user data and with the flag cleared, and that the
  attribute lists of the state sets stay as they are.
\<close>

definition attr_rel :: "nat \<Rightarrow> addr \<Rightarrow> StateAttribute \<Rightarrow> StateAttribute \<Rightarrow> bool" where
  "attr_rel n a x y =
     (case x of
        TextureAttribute t \<Rightarrow>
          (case y of
             TextureAttribute t' \<Rightarrow>
               images t' = images t \<and>
               (unRefImageDataAfterApply t' \<longrightarrow> unRefImageDataAfterApply t) \<and>
               (userDataContainer t' = userDataContainer t \<or>
                (n \<le> a \<and> userDataContainer t' = None))
           | OtherAttribute obj' \<Rightarrow> False)
      | OtherAttribute obj \<Rightarrow>
          (case y of TextureAttribute t' \<Rightarrow> False | OtherAttribute obj' \<Rightarrow> True))"

definition strippedClone :: "StateAttribute \<Rightarrow> bool" where
  "strippedClone x =
     (case x of
        TextureAttribute t \<Rightarrow> userDataContainer t = None \<and> \<not> unRefImageDataAfterApply t
      | OtherAttribute obj \<Rightarrow> False)"

definition stripped :: "StateAttribute \<Rightarrow> StateAttribute" where
  "stripped x =
     (case x of
        TextureAttribute t \<Rightarrow> TextureAttribute (t\<lparr>userDataContainer := None\<rparr>)
      | OtherAttribute obj \<Rightarrow> OtherAttribute (obj\<lparr>userDataContainer := None\<rparr>))"

definition step :: "nat \<Rightarrow> 'b World \<Rightarrow> 'b World \<Rightarrow> bool" where
  "step n w w' \<longleftrightarrow>
     length (attributes w) \<le> length (attributes w') \<and>
     (\<forall>a < length (attributes w). attr_rel n a (attributes w ! a) (attributes w' ! a)) \<and>
     (\<forall>a. length (attributes w) \<le> a \<and> a < length (attributes w') \<longrightarrow>
        strippedClone (attributes w' ! a)) \<and>
     map attributeList (stateSets w') = map attributeList (stateSets w)"

definition okList :: "nat \<Rightarrow> 'b World \<Rightarrow> AttributeList \<Rightarrow> bool" where
  "okList n w l \<longleftrightarrow>
     (\<forall>j \<in> set l. \<forall>a. fst (snd j) = Some a \<and> a < n \<longrightarrow>
        (\<exists>obj. attributes w ! a = OtherAttribute obj))"

definition wfn :: "nat \<Rightarrow> 'b World \<Rightarrow> bool" where
  "wfn n w \<longleftrightarrow> n \<le> length (attributes w) \<and>
     (\<forall>l \<in> set (map attributeList (stateSets w)). okList n w l)"

text \<open>
  The preparation adds attributes to the store and neither adds nor removes state sets
  or images.
\<close>

definition grows :: "'b World \<Rightarrow> 'b World \<Rightarrow> bool" where
  "grows w w' \<longleftrightarrow>
     length (attributes w) \<le> length (attributes w') \<and>
     length (imageObjs w') = length (imageObjs w) \<and>
     length (stateSets w') = length (stateSets w)"

section \<open>The texture slots after the preparation\<close>

text \<open>
  The state sets a visit of the graph reaches: the state set of each node and of each
  drawable of a geode, in the order of the visit.
\<close>

definition stateSetsOfDrawable :: "Drawable option \<Rightarrow> addr list" where
  "stateSetsOfDrawable d =
     (case d of
        None \<Rightarrow> []
      | Some dr \<Rightarrow> (case drawableStateSet dr of None \<Rightarrow> [] | Some p \<Rightarrow> [p]))"

fun stateSetsOf :: "Node \<Rightarrow> addr list" where
  "stateSetsOf (Node node children) =
     (case stateSet node of None \<Rightarrow> [] | Some p \<Rightarrow> [p]) @ concat (map stateSetsOf children)"
| "stateSetsOf (Geode geode drawables children) =
     concat (map stateSetsOfDrawable drawables) @
     (case stateSet geode of None \<Rightarrow> [] | Some p \<Rightarrow> [p]) @ concat (map stateSetsOf children)"

text \<open>
  What the preparation has done to one entry of a texture slot, where \<open>before\<close> and
  \<open>after\<close> are the attributes of the store before and after the run, \<open>e0\<close> is the
  entry before and \<open>e\<close> the entry after: key and override value stay; a null reference
  stays; a reference to another attribute stays; for a reference to a texture \<open>t\<close> at
  address \<open>a\<close>, the object at \<open>a\<close> is \<open>t\<close> with the release flag cleared and nothing
  else changed, and the entry refers to a new object that is \<open>t\<close> with the flag cleared
  and without user data if the texture can be cloned, and still to \<open>a\<close> if not.
\<close>

definition entryPrepared ::
  "(addr \<Rightarrow> bool) \<Rightarrow> StateAttribute list \<Rightarrow> StateAttribute list \<Rightarrow>
     (nat \<times> nat) \<times> RefAttributePair \<Rightarrow> (nat \<times> nat) \<times> RefAttributePair \<Rightarrow> bool" where
  "entryPrepared cloneable before after e0 e \<longleftrightarrow>
     fst e = fst e0 \<and> snd (snd e) = snd (snd e0) \<and>
     (case fst (snd e0) of
        None \<Rightarrow> fst (snd e) = None
      | Some a \<Rightarrow>
          (case lookup before a of
             None \<Rightarrow> False
           | Some (OtherAttribute obj) \<Rightarrow> fst (snd e) = Some a
           | Some (TextureAttribute t) \<Rightarrow>
               lookup after a =
                 Some (TextureAttribute (t\<lparr>unRefImageDataAfterApply := False\<rparr>)) \<and>
               (if cloneable a
                then (case fst (snd e) of
                        None \<Rightarrow> False
                      | Some c \<Rightarrow>
                          length before \<le> c \<and>
                          lookup after c =
                            Some (TextureAttribute (t\<lparr>userDataContainer := None,
                              unRefImageDataAfterApply := False\<rparr>)))
                else fst (snd e) = Some a)))"

text \<open>
  During the run an entry is as it was or prepared; \<open>prepInv\<close> is what holds between
  the store \<open>w0\<close> at the start and the store \<open>w\<close> when the state sets of \<open>P\<close> have been
  visited.
\<close>

definition entryAny ::
  "(addr \<Rightarrow> bool) \<Rightarrow> StateAttribute list \<Rightarrow> StateAttribute list \<Rightarrow>
     (nat \<times> nat) \<times> RefAttributePair \<Rightarrow> (nat \<times> nat) \<times> RefAttributePair \<Rightarrow> bool" where
  "entryAny cloneable before after e0 e \<longleftrightarrow>
     e = e0 \<or> entryPrepared cloneable before after e0 e"

definition prepInv :: "(addr \<Rightarrow> bool) \<Rightarrow> 'b World \<Rightarrow> addr set \<Rightarrow> 'b World \<Rightarrow> bool" where
  "prepInv cloneable w0 P w \<longleftrightarrow>
     step (length (attributes w0)) w0 w \<and>
     length (stateSets w) = length (stateSets w0) \<and>
     (\<forall>p < length (stateSets w0).
        list_all2 (list_all2 (entryAny cloneable (attributes w0) (attributes w)))
          (textureAttributeList (stateSets w0 ! p)) (textureAttributeList (stateSets w ! p))) \<and>
     (\<forall>p \<in> P. p < length (stateSets w0) \<and>
        list_all2 (list_all2 (entryPrepared cloneable (attributes w0) (attributes w)))
          (textureAttributeList (stateSets w0 ! p)) (textureAttributeList (stateSets w ! p)))"

section \<open>File names: the extension and the name without it\<close>

lemma find_last_of_None: "find_last_of xs cs = None \<longleftrightarrow> set xs \<inter> set cs = {}"
  by (induction xs) (auto split: option.splits)

lemma find_last_of_append:
  "find_last_of (xs @ ys) cs =
     (case find_last_of ys cs of Some i \<Rightarrow> Some (length xs + i) | None \<Rightarrow> find_last_of xs cs)"
  by (induction xs) (auto split: option.splits)

lemma find_last_of_Some:
  "find_last_of xs cs = Some i \<Longrightarrow>
     i < length xs \<and> xs ! i \<in> set cs \<and> set (drop (Suc i) xs) \<inter> set cs = {}"
proof (induction xs arbitrary: i)
  case Nil
  then show ?case by simp
next
  case (Cons x xs)
  then show ?case
    by (auto split: option.splits if_splits simp: find_last_of_None)
qed

lemma find_last_of_last_dot:
  assumes "c \<in> set cs" and "set ys \<inter> set cs = {}"
  shows "find_last_of (xs @ c # ys) cs = Some (length xs)"
  using assms by (simp add: find_last_of_append find_last_of_None[THEN iffD2] split: option.splits)

lemma name_ext_split:
  assumes "getFileExtension url \<noteq> []"
  shows "url = getNameLessExtension url @ ''.'' @ getFileExtension url \<and>
         CHR ''.'' \<notin> set (getFileExtension url)"
proof -
  from assms obtain dot where d: "find_last_of url ''.'' = Some dot"
    by (auto simp: getFileExtension_def split: option.splits)
  from find_last_of_Some[OF d] have lt: "dot < length url" and at: "url ! dot = CHR ''.''"
    and after: "CHR ''.'' \<notin> set (drop (Suc dot) url)" by auto
  have url: "url = take dot url @ ''.'' @ drop (Suc dot) url"
    using lt at by (metis Cons_nth_drop_Suc append_Cons append_Nil append_take_drop_id)
  show ?thesis
    using assms d url after
    by (auto simp: getFileExtension_def getNameLessExtension_def split: option.splits if_splits)
qed

lemma tolower_dot: "tolower c \<in> set ''osgearth_cachebin'' \<Longrightarrow> c \<noteq> CHR ''.''"
proof
  assume m: "tolower c \<in> set ''osgearth_cachebin''" and c: "c = CHR ''.''"
  have "tolower (CHR ''.'') = CHR ''.''" by code_simp
  with m c show False by simp
qed

lemma tolower_slash: "tolower c \<in> set ''osgearth_cachebin'' \<Longrightarrow> c \<noteq> CHR ''/''"
proof
  assume m: "tolower c \<in> set ''osgearth_cachebin''" and c: "c = CHR ''/''"
  have "tolower (CHR ''/'') = CHR ''/''" by code_simp
  with m c show False by simp
qed

lemma tolower_backslash: "tolower c \<in> set ''osgearth_cachebin'' \<Longrightarrow> c \<noteq> CHR 0x5C"
proof
  assume m: "tolower c \<in> set ''osgearth_cachebin''" and c: "c = CHR 0x5C"
  have "tolower (CHR 0x5C) = CHR 0x5C" by code_simp
  with m c show False by simp
qed

lemma lowercase_marker_extension:
  assumes "map tolower ext = ''osgearth_cachebin''"
  shows "getFileExtension (stem @ ''.'' @ ext) = ext"
proof -
  have mem: "\<And>c. c \<in> set ext \<Longrightarrow> tolower c \<in> set ''osgearth_cachebin''"
    using assms by (metis image_eqI set_map)
  have nodot: "set ext \<inter> set ''.'' = {}"
    using tolower_dot[OF mem] by auto
  have nosep: "set ext \<inter> set PATH_SEPARATORS = {}"
    using tolower_slash[OF mem] tolower_backslash[OF mem] by (auto simp: PATH_SEPARATORS_def)
  have dot: "find_last_of (stem @ ''.'' @ ext) ''.'' = Some (length stem)"
    using find_last_of_last_dot[of "CHR ''.''" "''.''" ext stem] nodot by simp
  have sep: "find_last_of (stem @ ''.'' @ ext) PATH_SEPARATORS = find_last_of stem PATH_SEPARATORS"
    using nosep
    by (simp add: find_last_of_append find_last_of_None[THEN iffD2] PATH_SEPARATORS_def
        split: option.splits)
  show ?thesis
  proof (cases "find_last_of stem PATH_SEPARATORS")
    case None
    then show ?thesis using dot sep by (simp add: getFileExtension_def)
  next
    case (Some s)
    then have "s < length stem" using find_last_of_Some by blast
    then show ?thesis using dot sep Some by (simp add: getFileExtension_def)
  qed
qed

lemma marker_lowercase_ext:
  assumes "map tolower ext = ''osgearth_cachebin''"
  shows "getLowerCaseFileExtension (stem @ ''.'' @ ext) = ''osgearth_cachebin''"
  unfolding getLowerCaseFileExtension_def convertToLowerCase_def
    lowercase_marker_extension[OF assms] by (rule assms)

lemma readObject_handled:
  "getLowerCaseFileExtension url = ''osgearth_cachebin'' \<Longrightarrow>
     status (readObject ops url readOptions) \<noteq> FILE_NOT_HANDLED"
  unfolding readObject_def
  by (simp add: ReadResult_status_def ReadResult_object_def split: option.splits Result.splits)

lemma readImage_handled:
  "getLowerCaseFileExtension url = ''osgearth_cachebin'' \<Longrightarrow>
     status (readImage ops url readOptions) \<noteq> FILE_NOT_HANDLED"
  unfolding readImage_def
  by (simp add: ReadResult_status_def ReadResult_object_def split: option.splits Result.splits)

section \<open>The pseudoloader: results\<close>

text \<open>
  Claim C7. For a load request whose target carries the extension \<open>osgearth_cachebin\<close>
  (in any letter case), both entry points of the pseudoloader return "file not found"
  when the read options hold no cache bin and when the read from the cache bin fails;
  they return a loaded result carrying the object, or the image, that the cache bin
  read, exactly when that read succeeds. The result is never "not handled" and never
  an error.
\<close>

theorem pseudoloader_not_found_or_loaded:
  assumes "getLowerCaseFileExtension url = ''osgearth_cachebin''"
  shows "(CacheBin_get readOptions = None \<longrightarrow>
            readObject ops url readOptions = ReadResult_status FILE_NOT_FOUND \<and>
            readImage ops url readOptions = ReadResult_status FILE_NOT_FOUND) \<and>
         (\<forall>bin. CacheBin_get readOptions = Some bin \<longrightarrow>
            (case bin_readObject ops bin (getNameLessExtension url) readOptions of
               Succeeded obj \<Rightarrow>
                 readObject ops url readOptions = \<lparr>status = FILE_LOADED, rr_object = Some obj\<rparr>
             | Failed \<Rightarrow> readObject ops url readOptions = ReadResult_status FILE_NOT_FOUND) \<and>
            (case bin_readImage ops bin (getNameLessExtension url) readOptions of
               Succeeded img \<Rightarrow>
                 readImage ops url readOptions =
                   \<lparr>status = FILE_LOADED, rr_object = Some (ImageObject img)\<rparr>
             | Failed \<Rightarrow> readImage ops url readOptions = ReadResult_status FILE_NOT_FOUND) \<and>
            (status (readObject ops url readOptions) = FILE_LOADED) =
              succeeded (bin_readObject ops bin (getNameLessExtension url) readOptions) \<and>
            (status (readImage ops url readOptions) = FILE_LOADED) =
              succeeded (bin_readImage ops bin (getNameLessExtension url) readOptions)) \<and>
         (status (readObject ops url readOptions) = FILE_NOT_FOUND \<or>
          status (readObject ops url readOptions) = FILE_LOADED) \<and>
         (status (readImage ops url readOptions) = FILE_NOT_FOUND \<or>
          status (readImage ops url readOptions) = FILE_LOADED)"
  using assms
  by (auto simp: readObject_def readImage_def ReadResult_object_def ReadResult_status_def
      split: option.splits Result.splits)

theorem pseudoloader_not_found_or_loaded_witness:
  "readObject memBinOps ''i_abc.osgearth_cachebin'' None = ReadResult_status FILE_NOT_FOUND \<and>
   readImage memBinOps ''i_abc.osgearth_cachebin'' None = ReadResult_status FILE_NOT_FOUND \<and>
   readImage memBinOps ''i_abc.osgearth_cachebin''
      (Some \<lparr>pluginStringData = [], cacheBin = Some [(''i_abc'', ImageObject (exampleImage ''a''))]\<rparr>) =
     \<lparr>status = FILE_LOADED, rr_object = Some (ImageObject (exampleImage ''a''))\<rparr> \<and>
   readObject memBinOps ''i_abc.osgearth_cachebin''
      (Some \<lparr>pluginStringData = [], cacheBin = Some [(''i_abc'', ImageObject (exampleImage ''a''))]\<rparr>) =
     \<lparr>status = FILE_LOADED, rr_object = Some (ImageObject (exampleImage ''a''))\<rparr> \<and>
   readImage memBinOps ''i_abc.osgearth_cachebin''
      (Some \<lparr>pluginStringData = [], cacheBin = Some []\<rparr>) = ReadResult_status FILE_NOT_FOUND \<and>
   readObject memBinOps ''i_abc.osgearth_cachebin''
      (Some \<lparr>pluginStringData = [], cacheBin = Some []\<rparr>) = ReadResult_status FILE_NOT_FOUND"
proof -
  have h: "getLowerCaseFileExtension ''i_abc.osgearth_cachebin'' = ''osgearth_cachebin''"
    by code_simp
  have k: "getNameLessExtension ''i_abc.osgearth_cachebin'' = ''i_abc''"
    by code_simp
  show ?thesis
    using pseudoloader_not_found_or_loaded[OF h, of None memBinOps]
      pseudoloader_not_found_or_loaded[OF h,
        of "Some \<lparr>pluginStringData = [], cacheBin = Some [(''i_abc'', ImageObject (exampleImage ''a''))]\<rparr>" memBinOps]
      pseudoloader_not_found_or_loaded[OF h,
        of "Some \<lparr>pluginStringData = [], cacheBin = Some []\<rparr>" memBinOps]
    by (simp add: k CacheBin_get_def memBinOps_def)
qed

text \<open>
  Claim C8. For a URL with the extension \<open>osgearth_cachebin\<close> and a cache bin in the
  read options, the key is the URL without its final extension (the URL is the key, a
  dot and an extension that holds no dot); \<open>readImage\<close> asks the bin's \<open>readImage\<close>
  for that key and \<open>readObject\<close> asks the bin's \<open>readObject\<close>; the result of
  \<open>readImage\<close> does not depend on the bin's \<open>readObject\<close>.
\<close>

theorem pseudoloader_key_and_dispatch:
  assumes "getLowerCaseFileExtension url = ''osgearth_cachebin''"
    and "CacheBin_get readOptions = Some bin"
  shows "url = getNameLessExtension url @ ''.'' @ getFileExtension url \<and>
         CHR ''.'' \<notin> set (getFileExtension url) \<and>
         readImage ops url readOptions =
           (case bin_readImage ops bin (getNameLessExtension url) readOptions of
              Succeeded img \<Rightarrow> ReadResult_object (ImageObject img)
            | Failed \<Rightarrow> ReadResult_status FILE_NOT_FOUND) \<and>
         readObject ops url readOptions =
           (case bin_readObject ops bin (getNameLessExtension url) readOptions of
              Succeeded obj \<Rightarrow> ReadResult_object obj
            | Failed \<Rightarrow> ReadResult_status FILE_NOT_FOUND) \<and>
         readImage (ops\<lparr>bin_readObject := f\<rparr>) url readOptions = readImage ops url readOptions"
proof -
  have "getFileExtension url \<noteq> []"
    using assms(1) by (auto simp: getLowerCaseFileExtension_def convertToLowerCase_def)
  from name_ext_split[OF this] show ?thesis
    using assms by (simp add: readObject_def readImage_def)
qed

theorem pseudoloader_key_and_dispatch_witness:
  "getNameLessExtension ''i_a.b.osgearth_cachebin'' = ''i_a.b'' \<and>
   readImage memBinOps ''i_a.b.osgearth_cachebin''
      (Some \<lparr>pluginStringData = [], cacheBin = Some [(''i_a.b'', ImageObject (exampleImage ''a''))]\<rparr>) =
     ReadResult_object (ImageObject (exampleImage ''a'')) \<and>
   readImage (memBinOps\<lparr>bin_readObject := (\<lambda>b key opts. Failed)\<rparr>) ''i_a.b.osgearth_cachebin''
      (Some \<lparr>pluginStringData = [], cacheBin = Some [(''i_a.b'', ImageObject (exampleImage ''a''))]\<rparr>) =
     ReadResult_object (ImageObject (exampleImage ''a''))"
proof -
  have h: "getLowerCaseFileExtension ''i_a.b.osgearth_cachebin'' = ''osgearth_cachebin''"
    by code_simp
  have k: "getNameLessExtension ''i_a.b.osgearth_cachebin'' = ''i_a.b''"
    by code_simp
  have g: "CacheBin_get (Some \<lparr>pluginStringData = [],
      cacheBin = Some [(''i_a.b'', ImageObject (exampleImage ''a''))]\<rparr>) =
      Some [(''i_a.b'', ImageObject (exampleImage ''a''))]"
    by (simp add: CacheBin_get_def)
  show ?thesis
    using pseudoloader_key_and_dispatch[OF h g, of memBinOps "\<lambda>b key opts. Failed"]
    by (simp add: k memBinOps_def)
qed

text \<open>
  Claim C10. The extension is compared in lower case: a URL ending in a dot and any
  spelling of \<open>osgearth_cachebin\<close> in upper or lower case letters is handled by both
  entry points; for a URL whose lower-cased extension differs from it, the result of
  both entry points has the status "file not handled" (so not "file not found") and
  carries no object.
\<close>

theorem pseudoloader_extension_case_insensitive:
  "(map tolower ext = ''osgearth_cachebin'' \<longrightarrow>
      status (readObject ops (stem @ ''.'' @ ext) readOptions) \<noteq> FILE_NOT_HANDLED \<and>
      status (readImage ops (stem @ ''.'' @ ext) readOptions) \<noteq> FILE_NOT_HANDLED) \<and>
   (getLowerCaseFileExtension url \<noteq> ''osgearth_cachebin'' \<longrightarrow>
      readObject ops url readOptions = ReadResult_status FILE_NOT_HANDLED \<and>
      readImage ops url readOptions = ReadResult_status FILE_NOT_HANDLED \<and>
      status (readObject ops url readOptions) = FILE_NOT_HANDLED \<and>
      status (readImage ops url readOptions) = FILE_NOT_HANDLED \<and>
      status (readObject ops url readOptions) \<noteq> FILE_NOT_FOUND \<and>
      status (readImage ops url readOptions) \<noteq> FILE_NOT_FOUND \<and>
      rr_object (readObject ops url readOptions) = None \<and>
      rr_object (readImage ops url readOptions) = None)"
proof (intro conjI impI)
  assume m: "map tolower ext = ''osgearth_cachebin''"
  show "status (readObject ops (stem @ ''.'' @ ext) readOptions) \<noteq> FILE_NOT_HANDLED"
    by (rule readObject_handled[OF marker_lowercase_ext[OF m]])
  show "status (readImage ops (stem @ ''.'' @ ext) readOptions) \<noteq> FILE_NOT_HANDLED"
    by (rule readImage_handled[OF marker_lowercase_ext[OF m]])
next
  assume n: "getLowerCaseFileExtension url \<noteq> ''osgearth_cachebin''"
  then show "readObject ops url readOptions = ReadResult_status FILE_NOT_HANDLED"
    unfolding readObject_def by simp
  from n show "readImage ops url readOptions = ReadResult_status FILE_NOT_HANDLED"
    unfolding readImage_def by simp
  from n show "status (readObject ops url readOptions) = FILE_NOT_HANDLED"
    unfolding readObject_def by (simp add: ReadResult_status_def)
  from n show "status (readImage ops url readOptions) = FILE_NOT_HANDLED"
    unfolding readImage_def by (simp add: ReadResult_status_def)
  from n show "status (readObject ops url readOptions) \<noteq> FILE_NOT_FOUND"
    unfolding readObject_def by (simp add: ReadResult_status_def)
  from n show "status (readImage ops url readOptions) \<noteq> FILE_NOT_FOUND"
    unfolding readImage_def by (simp add: ReadResult_status_def)
  from n show "rr_object (readObject ops url readOptions) = None"
    unfolding readObject_def by (simp add: ReadResult_status_def)
  from n show "rr_object (readImage ops url readOptions) = None"
    unfolding readImage_def by (simp add: ReadResult_status_def)
qed

theorem pseudoloader_extension_case_insensitive_witness:
  "status (readObject memBinOps ''KEY.OSGEARTH_CACHEBIN'' None) \<noteq> FILE_NOT_HANDLED \<and>
   status (readImage memBinOps ''KEY.OSGEARTH_CACHEBIN'' None) \<noteq> FILE_NOT_HANDLED \<and>
   readObject memBinOps ''tex.png'' None = ReadResult_status FILE_NOT_HANDLED \<and>
   readImage memBinOps ''tex.png'' None = ReadResult_status FILE_NOT_HANDLED \<and>
   status (readObject memBinOps ''tex.png'' None) = FILE_NOT_HANDLED \<and>
   status (readImage memBinOps ''tex.png'' None) = FILE_NOT_HANDLED \<and>
   status (readObject memBinOps ''tex.png'' None) \<noteq> FILE_NOT_FOUND \<and>
   status (readImage memBinOps ''tex.png'' None) \<noteq> FILE_NOT_FOUND \<and>
   rr_object (readObject memBinOps ''tex.png'' None) = None \<and>
   rr_object (readImage memBinOps ''tex.png'' None) = None"
proof -
  have a: "map tolower ''OSGEARTH_CACHEBIN'' = ''osgearth_cachebin''"
    by code_simp
  have b: "getLowerCaseFileExtension ''tex.png'' \<noteq> ''osgearth_cachebin''"
    by code_simp
  note t = pseudoloader_extension_case_insensitive[of "''OSGEARTH_CACHEBIN''" memBinOps "''KEY''" None "''tex.png''"]
  have k: "''KEY'' @ ''.'' @ ''OSGEARTH_CACHEBIN'' = ''KEY.OSGEARTH_CACHEBIN''"
    by simp
  note p = t[THEN conjunct1, THEN mp, OF a, unfolded k]
  note q = t[THEN conjunct2, THEN mp, OF b]
  from p q show ?thesis by blast
qed

section \<open>Hexadecimal rendering\<close>

lemma hexDigitValue_hexDigit: "\<forall>d \<in> set [0..<16]. hexDigitValue (hexDigit d) = d"
  by code_simp

lemma hexDigit_mem: "\<forall>d \<in> set [0..<16]. hexDigit d \<in> set hexChars"
  by code_simp

lemma hexDigit_mem': "d < 16 \<Longrightarrow> hexDigit d \<in> set hexChars"
  using hexDigit_mem by simp

lemma hexDigitValue_hexDigit': "d < 16 \<Longrightarrow> hexDigitValue (hexDigit d) = d"
  using hexDigitValue_hexDigit by simp

lemma hexDigits_chars: "set (hexDigits n) \<subseteq> set hexChars"
proof (induction n rule: hexDigits.induct)
  case (1 n)
  show ?case
  proof (cases "n < 16")
    case True
    then show ?thesis using hexDigit_mem'[of n] by (subst hexDigits.simps) simp
  next
    case False
    then show ?thesis using 1 hexDigit_mem'[of "n mod 16"] by (subst hexDigits.simps) simp
  qed
qed

lemma hexValue_snoc: "hexValue (s @ [c]) = 16 * hexValue s + hexDigitValue c"
  by (simp add: hexValue_def)

lemma hexValue_hexDigits: "hexValue (hexDigits n) = n"
proof (induction n rule: hexDigits.induct)
  case (1 n)
  show ?case
  proof (cases "n < 16")
    case True
    then show ?thesis using hexDigitValue_hexDigit'[of n]
      by (subst hexDigits.simps) (simp add: hexValue_def)
  next
    case False
    then show ?thesis using 1 hexDigitValue_hexDigit'[of "n mod 16"]
      by (subst hexDigits.simps) (simp add: hexValue_snoc)
  qed
qed

section \<open>The externalizer on one image\<close>

lemma writeRefs_apply_image:
  "\<not> startsWith (fileName img) IMAGE_PREFIX \<Longrightarrow>
   fst (writeRefs_apply hashString ops writeOptions img w) = rewritten hashString img"
  by (simp add: writeRefs_apply_def rewritten_def Let_def)

lemma writeRefs_apply_binWrites:
  "\<not> startsWith (fileName img) IMAGE_PREFIX \<Longrightarrow>
   binWrites (snd (writeRefs_apply hashString ops writeOptions img w)) =
     binWrites w @
       (if bin_getRecordStatus ops (binState w) (cacheKey hashString (fileName img)) \<noteq> STATUS_OK
        then [(cacheKey hashString (fileName img), ImageObject (rewritten hashString img))]
        else [])"
  by (simp add: writeRefs_apply_def rewritten_def Let_def)

lemma writeRefs_apply_binState:
  "\<not> startsWith (fileName img) IMAGE_PREFIX \<Longrightarrow>
   binState (snd (writeRefs_apply hashString ops writeOptions img w)) =
     (if bin_getRecordStatus ops (binState w) (cacheKey hashString (fileName img)) \<noteq> STATUS_OK
      then snd (bin_write ops (binState w) (cacheKey hashString (fileName img))
                  (ImageObject (rewritten hashString img)) [] (imageWriteOptions writeOptions))
      else binState w)"
  by (simp add: writeRefs_apply_def rewritten_def Let_def imageWriteOptions_def)

lemma writeRefs_apply_prefixed:
  "startsWith (fileName img) IMAGE_PREFIX \<Longrightarrow>
   writeRefs_apply hashString ops writeOptions img w = (img, w)"
  by (auto simp: writeRefs_apply_def Let_def startsWith_def IMAGE_PREFIX_def)

lemma startsWith_cacheKey: "startsWith (cacheKey hashString path @ ext) IMAGE_PREFIX"
  by (simp add: startsWith_def cacheKey_def IMAGE_PREFIX_def)

lemma blank_not_prefixed: "\<not> startsWith [] IMAGE_PREFIX"
  by (simp add: startsWith_def IMAGE_PREFIX_def)

lemma hexDigits_example: "hexDigits 10597059 = ''a1b2c3''"
  by (simp add: hexDigits.simps hexDigit_def hexChars_def)

lemma unat_example: "unat (0xa1b2c3 :: 32 word) = 10597059"
  by simp

lemma exampleHash_example: "exampleHash ''/data/tex.png'' = 0xa1b2c3"
  by (simp add: exampleHash_def)

lemma cacheKey_example: "cacheKey exampleHash ''/data/tex.png'' = ''i_a1b2c3''"
  by (simp add: cacheKey_def hexDigits_example unat_example exampleHash_example IMAGE_PREFIX_def)

text \<open>
  Claim C4. For an image whose file name does not carry the prefix, the image is rewritten
  (file name: the cache key and \<open>.osgearth_cachebin\<close>; write hint: external file)
  whatever the record status and whatever the write returns; the bin receives one write,
  of the rewritten image under the cache key, exactly when the record status of the key
  is not \<open>STATUS_OK\<close>, and none otherwise.
\<close>

theorem externalizer_writes_unless_status_ok:
  assumes "\<not> startsWith (fileName img) IMAGE_PREFIX"
  shows "fst (writeRefs_apply hashString ops writeOptions img w) =
           img\<lparr>fileName := cacheKey hashString (fileName img) @ ''.osgearth_cachebin'',
               writeHint := EXTERNAL_FILE\<rparr> \<and>
         binWrites (snd (writeRefs_apply hashString ops writeOptions img w)) =
           binWrites w @
             (if bin_getRecordStatus ops (binState w) (cacheKey hashString (fileName img)) = STATUS_OK
              then []
              else [(cacheKey hashString (fileName img),
                     ImageObject (fst (writeRefs_apply hashString ops writeOptions img w)))]) \<and>
         binState (snd (writeRefs_apply hashString ops writeOptions img w)) =
           (if bin_getRecordStatus ops (binState w) (cacheKey hashString (fileName img)) = STATUS_OK
            then binState w
            else snd (bin_write ops (binState w) (cacheKey hashString (fileName img))
                   (ImageObject (fst (writeRefs_apply hashString ops writeOptions img w))) []
                   (Some (setPluginStringData ''WriteImageHint'' ''IncludeData''
                      (cloneOrCreateOptions writeOptions)))))"
  using assms
    writeRefs_apply_image[OF assms, of hashString ops writeOptions w]
    writeRefs_apply_binWrites[OF assms, of hashString ops writeOptions w]
    writeRefs_apply_binState[OF assms, of hashString ops writeOptions w]
  by (simp add: rewritten_def imageWriteOptions_def)

lemma example_not_prefixed:
  "\<not> startsWith (fileName (exampleImage ''/data/tex.png'')) IMAGE_PREFIX"
  by (simp add: startsWith_def IMAGE_PREFIX_def exampleImage_def)

theorem externalizer_writes_unless_status_ok_witness:
  "fileName (fst (writeRefs_apply exampleHash failingBinOps None
       (exampleImage ''/data/tex.png'') emptyWorld)) = ''i_a1b2c3.osgearth_cachebin'' \<and>
   writeHint (fst (writeRefs_apply exampleHash failingBinOps None
       (exampleImage ''/data/tex.png'') emptyWorld)) = EXTERNAL_FILE \<and>
   map fst (binWrites (snd (writeRefs_apply exampleHash failingBinOps None
       (exampleImage ''/data/tex.png'') emptyWorld))) = [''i_a1b2c3''] \<and>
   map fst (binWrites (snd (writeRefs_apply exampleHash expiredBinOps None
       (exampleImage ''/data/tex.png'') (emptyWorld\<lparr>binState := cachedBin\<rparr>)))) = [''i_a1b2c3''] \<and>
   binWrites (snd (writeRefs_apply exampleHash memBinOps None
       (exampleImage ''/data/tex.png'') (emptyWorld\<lparr>binState := cachedBin\<rparr>))) = [] \<and>
   fileName (fst (writeRefs_apply exampleHash memBinOps None
       (exampleImage ''/data/tex.png'') (emptyWorld\<lparr>binState := cachedBin\<rparr>))) =
     ''i_a1b2c3.osgearth_cachebin''"
  using
    externalizer_writes_unless_status_ok[OF example_not_prefixed, of exampleHash
      failingBinOps None emptyWorld]
    externalizer_writes_unless_status_ok[OF example_not_prefixed, of exampleHash
      expiredBinOps None "emptyWorld\<lparr>binState := cachedBin\<rparr>"]
    externalizer_writes_unless_status_ok[OF example_not_prefixed, of exampleHash
      memBinOps None "emptyWorld\<lparr>binState := cachedBin\<rparr>"]
  by (simp add: cacheKey_example exampleImage_def emptyWorld_def cachedBin_def failingBinOps_def
      expiredBinOps_def memBinOps_def)

text \<open>
  Claim C5. For an image whose file name \<open>path\<close> does not carry the prefix, the cache
  key is \<open>i_\<close> followed by the lowercase hexadecimal digits of \<open>hashString path\<close>
  (digits among \<open>0123456789abcdef\<close> whose value is the hash), the rewritten file name
  is the key followed by \<open>.osgearth_cachebin\<close>, and another image with the same file
  name, visited with any bin, options and state, is rewritten to the same file name.
\<close>

theorem externalizer_cache_key_format:
  assumes "\<not> startsWith (fileName img) IMAGE_PREFIX" and "fileName img2 = fileName img"
  shows "cacheKey hashString (fileName img) =
           ''i_'' @ hexDigits (unat (hashString (fileName img))) \<and>
         set (hexDigits (unat (hashString (fileName img)))) \<subseteq> set ''0123456789abcdef'' \<and>
         hexValue (hexDigits (unat (hashString (fileName img)))) = unat (hashString (fileName img)) \<and>
         fileName (fst (writeRefs_apply hashString ops writeOptions img w)) =
           cacheKey hashString (fileName img) @ ''.osgearth_cachebin'' \<and>
         fileName (fst (writeRefs_apply hashString ops2 writeOptions2 img2 w2)) =
           fileName (fst (writeRefs_apply hashString ops writeOptions img w))"
proof -
  have a: "cacheKey hashString (fileName img) =
           ''i_'' @ hexDigits (unat (hashString (fileName img)))"
    by (simp add: cacheKey_def IMAGE_PREFIX_def)
  have b: "set (hexDigits (unat (hashString (fileName img)))) \<subseteq> set ''0123456789abcdef''"
    using hexDigits_chars[of "unat (hashString (fileName img))"] unfolding hexChars_def .
  have c: "fileName (fst (writeRefs_apply hashString ops writeOptions img w)) =
           cacheKey hashString (fileName img) @ ''.osgearth_cachebin''"
    using writeRefs_apply_image[OF assms(1), of hashString ops writeOptions w]
    by (simp add: rewritten_def)
  have "\<not> startsWith (fileName img2) IMAGE_PREFIX" using assms by simp
  from writeRefs_apply_image[OF this, of hashString ops2 writeOptions2 w2]
  have d: "fileName (fst (writeRefs_apply hashString ops2 writeOptions2 img2 w2)) =
           cacheKey hashString (fileName img) @ ''.osgearth_cachebin''"
    using assms(2) by (simp add: rewritten_def)
  show ?thesis
    by (intro conjI) (rule a, rule b, rule hexValue_hexDigits, rule c, simp only: c d)
qed

theorem externalizer_cache_key_format_witness:
  "cacheKey exampleHash ''/data/tex.png'' = ''i_a1b2c3'' \<and>
   hexValue ''a1b2c3'' = 10597059 \<and>
   fileName (fst (writeRefs_apply exampleHash memBinOps None (exampleImage ''/data/tex.png'')
     emptyWorld)) = ''i_a1b2c3.osgearth_cachebin'' \<and>
   fileName (fst (writeRefs_apply exampleHash failingBinOps None
     ((exampleImage ''/data/tex.png'')\<lparr>pixels := [7]\<rparr>)
     (emptyWorld\<lparr>binState := cachedBin\<rparr>))) = ''i_a1b2c3.osgearth_cachebin''"
proof -
  have e: "fileName ((exampleImage ''/data/tex.png'')\<lparr>pixels := [7]\<rparr>) =
           fileName (exampleImage ''/data/tex.png'')"
    by simp
  show ?thesis
    using externalizer_cache_key_format[OF example_not_prefixed e, of exampleHash memBinOps None
        emptyWorld failingBinOps None "emptyWorld\<lparr>binState := cachedBin\<rparr>"]
    by (simp add: hexDigits_example unat_example exampleHash_example exampleImage_def)
qed

lemma blank_key_example: "cacheKey exampleHash [] = ''i_0''"
  by (simp add: cacheKey_def exampleHash_def IMAGE_PREFIX_def hexDigits.simps hexDigit_def
      hexChars_def)

text \<open>
  Claim C3, on the code: an image with an empty file name is warned about and then
  handled like any other image: its file name is rewritten, its write hint set, and it is
  written to the bin under the cache key of the empty string.
\<close>

theorem blank_filename_is_externalized:
  "fileName (fst (writeRefs_apply exampleHash memBinOps None (exampleImage []) emptyWorld)) =
     ''i_0.osgearth_cachebin'' \<and>
   writeHint (fst (writeRefs_apply exampleHash memBinOps None (exampleImage []) emptyWorld)) =
     EXTERNAL_FILE \<and>
   map fst (binWrites (snd (writeRefs_apply exampleHash memBinOps None (exampleImage [])
     emptyWorld))) = [''i_0''] \<and>
   hd (logged (snd (writeRefs_apply exampleHash memBinOps None (exampleImage []) emptyWorld))) =
     OE_WARN ''[WriteImagesToCache] ERROR image with blank filename.\<newline>''"
  by (simp add: writeRefs_apply_def Let_def blank_key_example exampleImage_def emptyWorld_def
      memBinOps_def startsWith_def IMAGE_PREFIX_def)

section \<open>The externalizer on a graph\<close>

lemma writeRefs_apply_fileName_prefixed:
  "startsWith (fileName (fst (writeRefs_apply hashString ops writeOptions img w))) IMAGE_PREFIX"
proof (cases "startsWith (fileName img) IMAGE_PREFIX")
  case True
  then show ?thesis by (simp add: writeRefs_apply_prefixed)
next
  case False
  from writeRefs_apply_image[OF this, of hashString ops writeOptions w] show ?thesis
    by (simp add: rewritten_def startsWith_cacheKey)
qed

lemma writeRefs_apply_heap:
  "imageObjs (snd (writeRefs_apply hashString ops writeOptions img w)) = imageObjs w \<and>
   stateSets (snd (writeRefs_apply hashString ops writeOptions img w)) = stateSets w \<and>
   attributes (snd (writeRefs_apply hashString ops writeOptions img w)) = attributes w"
  by (simp add: writeRefs_apply_def Let_def)

lemma writeRefs_apply_Image_effect:
  assumes "writeRefs_apply_Image hashString ops writeOptions a w = Some w'"
  shows "prefixedAt w' a \<and> (prefixedAt w b \<longrightarrow> prefixedAt w' b) \<and>
         stateSets w' = stateSets w \<and> attributes w' = attributes w"
proof -
  from assms obtain img where l: "lookup (imageObjs w) a = Some img"
    and w': "w' = (snd (writeRefs_apply hashString ops writeOptions img w))
       \<lparr>imageObjs := (imageObjs (snd (writeRefs_apply hashString ops writeOptions img w)))
          [a := fst (writeRefs_apply hashString ops writeOptions img w)]\<rparr>"
    by (auto simp: writeRefs_apply_Image_def Let_def split: option.splits)
  from l have a: "a < length (imageObjs w)"
    by (simp add: lookup_def split: if_splits)
  note h = writeRefs_apply_heap[of hashString ops writeOptions img w]
  have io: "imageObjs w' = (imageObjs w)[a := fst (writeRefs_apply hashString ops writeOptions img w)]"
    using w' h by simp
  have 1: "prefixedAt w' a"
    using a io writeRefs_apply_fileName_prefixed[of hashString ops writeOptions img w]
    by (simp add: prefixedAt_def)
  have 2: "prefixedAt w b \<longrightarrow> prefixedAt w' b"
  proof (cases "b = a")
    case True
    with 1 show ?thesis by simp
  next
    case False
    with io show ?thesis by (simp add: prefixedAt_def)
  qed
  show ?thesis using 1 2 w' h by simp
qed

lemma writeRefs_apply_Image_noop:
  assumes "prefixedAt w a"
  shows "writeRefs_apply_Image hashString ops writeOptions a w = Some w"
  using assms
  by (simp add: prefixedAt_def writeRefs_apply_Image_def lookup_def writeRefs_apply_prefixed)

lemma writeRefs_apply_Images_effect:
  "writeRefs_apply_Images hashString ops writeOptions as w = Some w' \<Longrightarrow>
     (\<forall>a \<in> set as. prefixedAt w' a) \<and> (prefixedAt w b \<longrightarrow> prefixedAt w' b) \<and>
     stateSets w' = stateSets w \<and> attributes w' = attributes w"
proof (induction as arbitrary: w b)
  case Nil
  then show ?case by simp
next
  case (Cons a as)
  from Cons.prems obtain w1 where
    1: "writeRefs_apply_Image hashString ops writeOptions a w = Some w1"
    and 2: "writeRefs_apply_Images hashString ops writeOptions as w1 = Some w'"
    by (auto split: option.splits)
  note e = writeRefs_apply_Image_effect[OF 1]
  from e[of a] Cons.IH[OF 2, of a] have "prefixedAt w' a" by simp
  moreover from Cons.IH[OF 2, of b] have "\<forall>a \<in> set as. prefixedAt w' a" by simp
  moreover from e[of b] Cons.IH[OF 2, of b] have "prefixedAt w b \<longrightarrow> prefixedAt w' b" by simp
  moreover from e[of b] Cons.IH[OF 2, of b]
  have "stateSets w' = stateSets w \<and> attributes w' = attributes w" by simp
  ultimately show ?case by simp
qed

lemma writeRefs_apply_Images_noop:
  "\<forall>a \<in> set as. prefixedAt w a \<Longrightarrow>
     writeRefs_apply_Images hashString ops writeOptions as w = Some w"
  by (induction as) (simp_all add: writeRefs_apply_Image_noop)

lemma writeRefs_apply_Image_blank:
  assumes ok: "bin_getRecordStatus ops (binState w) (cacheKey hashString []) = STATUS_OK"
    and a: "blankOrKeyed hashString w a"
  shows "\<exists>w'. writeRefs_apply_Image hashString ops writeOptions a w = Some w' \<and>
           binWrites w' = binWrites w \<and> binState w' = binState w \<and>
           length (imageObjs w') = length (imageObjs w) \<and>
           fileName (imageObjs w' ! a) = cacheKey hashString [] @ ''.osgearth_cachebin'' \<and>
           (\<forall>b. b \<noteq> a \<longrightarrow> imageObjs w' ! b = imageObjs w ! b)"
proof (cases "fileName (imageObjs w ! a) = []")
  case True
  then have n: "\<not> startsWith (fileName (imageObjs w ! a)) IMAGE_PREFIX"
    using blank_not_prefixed by simp
  note i = writeRefs_apply_image[OF n, of hashString ops writeOptions w]
  note bw = writeRefs_apply_binWrites[OF n, of hashString ops writeOptions w]
  note bs = writeRefs_apply_binState[OF n, of hashString ops writeOptions w]
  note h = writeRefs_apply_heap[of hashString ops writeOptions "imageObjs w ! a" w]
  from a i bw bs h ok True show ?thesis
    by (simp add: writeRefs_apply_Image_def lookup_def Let_def blankOrKeyed_def rewritten_def)
next
  case False
  with a have k: "fileName (imageObjs w ! a) = cacheKey hashString [] @ ''.osgearth_cachebin''"
    and al: "a < length (imageObjs w)"
    by (auto simp: blankOrKeyed_def)
  then have "prefixedAt w a" by (simp add: prefixedAt_def startsWith_cacheKey)
  from writeRefs_apply_Image_noop[OF this, of hashString ops writeOptions] k show ?thesis
    by simp
qed

lemma writeRefs_apply_Images_blank:
  "bin_getRecordStatus ops (binState w) (cacheKey hashString []) = STATUS_OK \<Longrightarrow>
   \<forall>a \<in> set as. blankOrKeyed hashString w a \<Longrightarrow>
     \<exists>w'. writeRefs_apply_Images hashString ops writeOptions as w = Some w' \<and>
       binWrites w' = binWrites w \<and> binState w' = binState w \<and>
       length (imageObjs w') = length (imageObjs w) \<and>
       (\<forall>a \<in> set as.
          fileName (imageObjs w' ! a) = cacheKey hashString [] @ ''.osgearth_cachebin'') \<and>
       (\<forall>b. blankOrKeyed hashString w b \<longrightarrow> blankOrKeyed hashString w' b) \<and>
       (\<forall>b. b < length (imageObjs w) \<and>
          fileName (imageObjs w ! b) = cacheKey hashString [] @ ''.osgearth_cachebin'' \<longrightarrow>
          fileName (imageObjs w' ! b) = cacheKey hashString [] @ ''.osgearth_cachebin'')"
proof (induction as arbitrary: w)
  case Nil
  then show ?case by simp
next
  case (Cons a as)
  from Cons.prems(2) have a: "blankOrKeyed hashString w a" by simp
  from writeRefs_apply_Image_blank[OF Cons.prems(1) a, of writeOptions] obtain w1 where
    1: "writeRefs_apply_Image hashString ops writeOptions a w = Some w1"
    and bw: "binWrites w1 = binWrites w" and bs: "binState w1 = binState w"
    and len: "length (imageObjs w1) = length (imageObjs w)"
    and fa: "fileName (imageObjs w1 ! a) = cacheKey hashString [] @ ''.osgearth_cachebin''"
    and oth: "\<forall>b. b \<noteq> a \<longrightarrow> imageObjs w1 ! b = imageObjs w ! b"
    by blast
  have pres: "blankOrKeyed hashString w1 b" if "blankOrKeyed hashString w b" for b
    using that fa oth len by (cases "b = a") (auto simp: blankOrKeyed_def)
  have keep: "fileName (imageObjs w1 ! b) = cacheKey hashString [] @ ''.osgearth_cachebin''"
    if "fileName (imageObjs w ! b) = cacheKey hashString [] @ ''.osgearth_cachebin''" for b
    using that fa oth by (cases "b = a") auto
  from Cons.prems(1) bs have ok1:
    "bin_getRecordStatus ops (binState w1) (cacheKey hashString []) = STATUS_OK" by simp
  from Cons.prems(2) pres have "\<forall>a \<in> set as. blankOrKeyed hashString w1 a" by simp
  from Cons.IH[OF ok1 this] obtain w' where
    2: "writeRefs_apply_Images hashString ops writeOptions as w1 = Some w'"
    and bw': "binWrites w' = binWrites w1" and bs': "binState w' = binState w1"
    and len': "length (imageObjs w') = length (imageObjs w1)"
    and fs: "\<forall>a \<in> set as.
          fileName (imageObjs w' ! a) = cacheKey hashString [] @ ''.osgearth_cachebin''"
    and pres': "\<forall>b. blankOrKeyed hashString w1 b \<longrightarrow> blankOrKeyed hashString w' b"
    and keep': "\<forall>b. b < length (imageObjs w1) \<and>
          fileName (imageObjs w1 ! b) = cacheKey hashString [] @ ''.osgearth_cachebin'' \<longrightarrow>
          fileName (imageObjs w' ! b) = cacheKey hashString [] @ ''.osgearth_cachebin''"
    by blast
  from a len have "a < length (imageObjs w1)" by (simp add: blankOrKeyed_def)
  with fa keep' have fa': "fileName (imageObjs w' ! a) =
      cacheKey hashString [] @ ''.osgearth_cachebin''" by blast
  have k: "\<forall>b. b < length (imageObjs w) \<and>
          fileName (imageObjs w ! b) = cacheKey hashString [] @ ''.osgearth_cachebin'' \<longrightarrow>
          fileName (imageObjs w' ! b) = cacheKey hashString [] @ ''.osgearth_cachebin''"
    using keep keep' len by auto
  from 1 2 bw bw' bs bs' len len' fa' fs pres pres' k show ?case by auto
qed

text \<open>
  Claim C9. Two images whose file names are empty are rewritten to the same file name,
  the cache key of the empty string (\<open>i_\<close> and the hexadecimal hash of the empty string)
  followed by \<open>.osgearth_cachebin\<close>; a write for either goes to that one key; when
  the bin reports the key as \<open>STATUS_OK\<close> after the first image, the second image
  causes no write and leaves the bin as it is; and from a state in which the bin reports
  the key as \<open>STATUS_OK\<close>, a visit of any sequence of images with empty file names
  writes nothing, leaves the bin as it is and gives each of them that same file name.
\<close>

theorem blank_images_share_one_cache_key:
  assumes "fileName img1 = []" and "fileName img2 = []"
    and "bin_getRecordStatus ops3 (binState w3) (cacheKey hashString []) = STATUS_OK"
    and "list_all (\<lambda>a. a < length (imageObjs w3) \<and> fileName (imageObjs w3 ! a) = []) as"
  shows "cacheKey hashString [] = ''i_'' @ hexDigits (unat (hashString [])) \<and>
         fileName (fst (writeRefs_apply hashString ops writeOptions1 img1 w)) =
           cacheKey hashString [] @ ''.osgearth_cachebin'' \<and>
         fileName (fst (writeRefs_apply hashString ops2 writeOptions2 img2 w2)) =
           cacheKey hashString [] @ ''.osgearth_cachebin'' \<and>
         map fst (binWrites (snd (writeRefs_apply hashString ops writeOptions1 img1 w))) =
           map fst (binWrites w) @
             (if bin_getRecordStatus ops (binState w) (cacheKey hashString []) = STATUS_OK
              then [] else [cacheKey hashString []]) \<and>
         map fst (binWrites (snd (writeRefs_apply hashString ops2 writeOptions2 img2 w2))) =
           map fst (binWrites w2) @
             (if bin_getRecordStatus ops2 (binState w2) (cacheKey hashString []) = STATUS_OK
              then [] else [cacheKey hashString []]) \<and>
         (bin_getRecordStatus ops
            (binState (snd (writeRefs_apply hashString ops writeOptions1 img1 w)))
            (cacheKey hashString []) = STATUS_OK \<longrightarrow>
          binWrites (snd (writeRefs_apply hashString ops writeOptions2 img2
              (snd (writeRefs_apply hashString ops writeOptions1 img1 w)))) =
            binWrites (snd (writeRefs_apply hashString ops writeOptions1 img1 w)) \<and>
          binState (snd (writeRefs_apply hashString ops writeOptions2 img2
              (snd (writeRefs_apply hashString ops writeOptions1 img1 w)))) =
            binState (snd (writeRefs_apply hashString ops writeOptions1 img1 w))) \<and>
         (\<exists>w4. writeRefs_apply_Images hashString ops3 writeOptions3 as w3 = Some w4 \<and>
            binWrites w4 = binWrites w3 \<and> binState w4 = binState w3 \<and>
            list_all (\<lambda>a. fileName (imageObjs w4 ! a) =
              cacheKey hashString [] @ ''.osgearth_cachebin'') as)"
proof -
  have n1: "\<not> startsWith (fileName img1) IMAGE_PREFIX"
    and n2: "\<not> startsWith (fileName img2) IMAGE_PREFIX"
    using assms blank_not_prefixed by simp_all
  have a: "cacheKey hashString [] = ''i_'' @ hexDigits (unat (hashString []))"
    by (simp add: cacheKey_def IMAGE_PREFIX_def)
  have b: "fileName (fst (writeRefs_apply hashString ops writeOptions1 img1 w)) =
           cacheKey hashString [] @ ''.osgearth_cachebin''"
    using writeRefs_apply_image[OF n1, of hashString ops writeOptions1 w] assms(1)
    by (simp add: rewritten_def)
  have c: "fileName (fst (writeRefs_apply hashString ops2 writeOptions2 img2 w2)) =
           cacheKey hashString [] @ ''.osgearth_cachebin''"
    using writeRefs_apply_image[OF n2, of hashString ops2 writeOptions2 w2] assms(2)
    by (simp add: rewritten_def)
  have d: "map fst (binWrites (snd (writeRefs_apply hashString ops writeOptions1 img1 w))) =
           map fst (binWrites w) @
             (if bin_getRecordStatus ops (binState w) (cacheKey hashString []) = STATUS_OK
              then [] else [cacheKey hashString []])"
    using writeRefs_apply_binWrites[OF n1, of hashString ops writeOptions1 w] assms(1) by simp
  have e: "map fst (binWrites (snd (writeRefs_apply hashString ops2 writeOptions2 img2 w2))) =
           map fst (binWrites w2) @
             (if bin_getRecordStatus ops2 (binState w2) (cacheKey hashString []) = STATUS_OK
              then [] else [cacheKey hashString []])"
    using writeRefs_apply_binWrites[OF n2, of hashString ops2 writeOptions2 w2] assms(2) by simp
  have f: "bin_getRecordStatus ops
            (binState (snd (writeRefs_apply hashString ops writeOptions1 img1 w)))
            (cacheKey hashString []) = STATUS_OK \<longrightarrow>
          binWrites (snd (writeRefs_apply hashString ops writeOptions2 img2
              (snd (writeRefs_apply hashString ops writeOptions1 img1 w)))) =
            binWrites (snd (writeRefs_apply hashString ops writeOptions1 img1 w)) \<and>
          binState (snd (writeRefs_apply hashString ops writeOptions2 img2
              (snd (writeRefs_apply hashString ops writeOptions1 img1 w)))) =
            binState (snd (writeRefs_apply hashString ops writeOptions1 img1 w))"
    using writeRefs_apply_binWrites[OF n2, of hashString ops writeOptions2
        "snd (writeRefs_apply hashString ops writeOptions1 img1 w)"]
      writeRefs_apply_binState[OF n2, of hashString ops writeOptions2
        "snd (writeRefs_apply hashString ops writeOptions1 img1 w)"] assms(2)
    by simp
  from assms(4) have "\<forall>a \<in> set as. blankOrKeyed hashString w3 a"
    by (simp add: list_all_iff blankOrKeyed_def)
  from writeRefs_apply_Images_blank[OF assms(3) this, of writeOptions3]
  have g: "\<exists>w4. writeRefs_apply_Images hashString ops3 writeOptions3 as w3 = Some w4 \<and>
            binWrites w4 = binWrites w3 \<and> binState w4 = binState w3 \<and>
            list_all (\<lambda>a. fileName (imageObjs w4 ! a) =
              cacheKey hashString [] @ ''.osgearth_cachebin'') as"
    by (auto simp: list_all_iff)
  show ?thesis
    by (intro conjI) (rule a, rule b, rule c, rule d, rule e, rule f, rule g)
qed

theorem blank_images_share_one_cache_key_witness:
  "fileName (fst (writeRefs_apply exampleHash memBinOps None (exampleImage []) emptyWorld)) =
     ''i_0.osgearth_cachebin'' \<and>
   fileName (fst (writeRefs_apply exampleHash memBinOps None
     ((exampleImage [])\<lparr>pixels := [7]\<rparr>)
     (snd (writeRefs_apply exampleHash memBinOps None (exampleImage []) emptyWorld)))) =
     ''i_0.osgearth_cachebin'' \<and>
   map fst (binWrites (snd (writeRefs_apply exampleHash memBinOps None (exampleImage [])
     emptyWorld))) = [''i_0''] \<and>
   map fst (binWrites (snd (writeRefs_apply exampleHash memBinOps None
     ((exampleImage [])\<lparr>pixels := [7]\<rparr>)
     (snd (writeRefs_apply exampleHash memBinOps None (exampleImage []) emptyWorld))))) =
     [''i_0''] \<and>
   writeRefs_apply_Images exampleHash memBinOps None [0, 1, 0] blankWorld \<noteq> None \<and>
   binWrites (the (writeRefs_apply_Images exampleHash memBinOps None [0, 1, 0] blankWorld)) = [] \<and>
   fileName (imageObjs (the (writeRefs_apply_Images exampleHash memBinOps None [0, 1, 0]
     blankWorld)) ! 0) = ''i_0.osgearth_cachebin'' \<and>
   fileName (imageObjs (the (writeRefs_apply_Images exampleHash memBinOps None [0, 1, 0]
     blankWorld)) ! 1) = ''i_0.osgearth_cachebin''"
proof -
  have a: "fileName (exampleImage []) = []"
    and b: "fileName ((exampleImage [])\<lparr>pixels := [7]\<rparr>) = []"
    by (simp_all add: exampleImage_def)
  have c: "bin_getRecordStatus memBinOps
     (binState (snd (writeRefs_apply exampleHash memBinOps None (exampleImage []) emptyWorld)))
     (cacheKey exampleHash []) = STATUS_OK"
    by (simp add: writeRefs_apply_def Let_def blank_key_example exampleImage_def emptyWorld_def
        memBinOps_def startsWith_def IMAGE_PREFIX_def)
  have d: "bin_getRecordStatus memBinOps (binState blankWorld) (cacheKey exampleHash []) =
      STATUS_OK"
    by (simp add: blank_key_example blankWorld_def emptyWorld_def memBinOps_def)
  have e: "list_all (\<lambda>a. a < length (imageObjs blankWorld) \<and>
      fileName (imageObjs blankWorld ! a) = []) [0, 1, 0]"
    by (simp add: blankWorld_def emptyWorld_def exampleImage_def)
  have bw: "binWrites blankWorld = []"
    by (simp add: blankWorld_def emptyWorld_def)
  show ?thesis
    using blank_images_share_one_cache_key[OF a b d e, of memBinOps None emptyWorld
        memBinOps None
        "snd (writeRefs_apply exampleHash memBinOps None (exampleImage []) emptyWorld)" None] c
    by (auto simp: blank_key_example memBinOps_def emptyWorld_def bw)
qed

text \<open>
  Claim C6. After the externalizer has run over a graph, a second run over the same graph
  (with any hash function, bin operations and options) returns the state of the first run
  unchanged: every file name stays as the first run left it, nothing is written and
  nothing is logged. The same holds for any sequence of images visited twice, whatever
  the traversal that produced it; after the first visit each of them carries the prefix.
\<close>

theorem externalizer_second_pass_changes_nothing:
  assumes "writeRefs_accept hashString ops writeOptions node w = Some w1"
    and "writeRefs_apply_Images hashString ops writeOptions as w' = Some w1'"
  shows "writeRefs_accept hashString2 ops2 writeOptions2 node w1 = Some w1 \<and>
         writeRefs_apply_Images hashString2 ops2 writeOptions2 as w1' = Some w1' \<and>
         list_all (\<lambda>a. startsWith (fileName (imageObjs w1' ! a)) IMAGE_PREFIX) as"
proof -
  from assms obtain bs where
    bs: "imagesOfNode (stateSets w) (attributes w) node = Some bs"
    and run: "writeRefs_apply_Images hashString ops writeOptions bs w = Some w1"
    by (auto simp: writeRefs_accept_def split: option.splits)
  from writeRefs_apply_Images_effect[OF run]
  have p: "\<forall>a \<in> set bs. prefixedAt w1 a"
    and s: "stateSets w1 = stateSets w" "attributes w1 = attributes w"
    by simp_all
  have 1: "writeRefs_accept hashString2 ops2 writeOptions2 node w1 = Some w1"
    using bs s writeRefs_apply_Images_noop[OF p, of hashString2 ops2 writeOptions2]
    by (simp add: writeRefs_accept_def)
  from writeRefs_apply_Images_effect[OF assms(2)]
  have q: "\<forall>a \<in> set as. prefixedAt w1' a" by simp
  from writeRefs_apply_Images_noop[OF q, of hashString2 ops2 writeOptions2] q 1
  show ?thesis by (simp add: list_all_iff prefixedAt_def)
qed

section \<open>The preparation: what a visit may change\<close>

lemma attr_rel_refl: "attr_rel n a x x"
  by (cases x) (auto simp: attr_rel_def)

lemma attr_rel_trans: "attr_rel n a x y \<Longrightarrow> attr_rel n a y z \<Longrightarrow> attr_rel n a x z"
  by (cases x; cases y; cases z) (auto simp: attr_rel_def)

lemma attr_rel_stripped: "strippedClone x \<Longrightarrow> attr_rel n a x y \<Longrightarrow> strippedClone y"
  by (cases x; cases y) (auto simp: attr_rel_def strippedClone_def)

lemma step_refl: "step n w w"
  by (auto simp: step_def attr_rel_refl)

lemma step_trans:
  assumes "step n w w1" and "step n w1 w2"
  shows "step n w w2"
proof -
  have len: "length (attributes w) \<le> length (attributes w1)"
    "length (attributes w1) \<le> length (attributes w2)"
    using assms by (simp_all add: step_def)
  have a: "attr_rel n a (attributes w ! a) (attributes w2 ! a)" if "a < length (attributes w)" for a
  proof -
    from that assms(1) have "attr_rel n a (attributes w ! a) (attributes w1 ! a)"
      by (simp add: step_def)
    moreover from that len assms(2) have "attr_rel n a (attributes w1 ! a) (attributes w2 ! a)"
      by (simp add: step_def)
    ultimately show ?thesis by (rule attr_rel_trans)
  qed
  have b: "strippedClone (attributes w2 ! a)"
    if "length (attributes w) \<le> a" "a < length (attributes w2)" for a
  proof (cases "a < length (attributes w1)")
    case True
    with that assms(1) have "strippedClone (attributes w1 ! a)" by (simp add: step_def)
    moreover from True assms(2) have "attr_rel n a (attributes w1 ! a) (attributes w2 ! a)"
      by (simp add: step_def)
    ultimately show ?thesis by (rule attr_rel_stripped)
  next
    case False
    with that assms(2) show ?thesis by (simp add: step_def)
  qed
  have c: "map attributeList (stateSets w2) = map attributeList (stateSets w)"
    using assms by (simp add: step_def)
  show ?thesis unfolding step_def using len a b c by auto
qed

lemma okList_step:
  assumes "okList n w l" and "step n w w'" and "n \<le> length (attributes w)"
  shows "okList n w' l"
  unfolding okList_def
proof (intro ballI allI impI)
  fix j a assume j: "j \<in> set l" and a: "fst (snd j) = Some a \<and> a < n"
  with assms(1) obtain obj where o: "attributes w ! a = OtherAttribute obj"
    by (auto simp: okList_def)
  from a assms(3) have "a < length (attributes w)" by simp
  with assms(2) have "attr_rel n a (attributes w ! a) (attributes w' ! a)"
    by (simp add: step_def)
  with o show "\<exists>obj. attributes w' ! a = OtherAttribute obj"
    by (cases "attributes w' ! a") (simp_all add: attr_rel_def)
qed

lemma wfn_step:
  assumes "wfn n w" and "step n w w'"
  shows "wfn n w'"
proof -
  from assms have n: "n \<le> length (attributes w)" "n \<le> length (attributes w')"
    by (auto simp: wfn_def step_def)
  have m: "map attributeList (stateSets w') = map attributeList (stateSets w)"
    using assms(2) by (simp add: step_def)
  show ?thesis
    unfolding wfn_def m using assms(1) n okList_step[OF _ assms(2) n(1)]
    by (auto simp: wfn_def)
qed

lemma step_same:
  "attributes w' = attributes w \<Longrightarrow> stateSets w' = stateSets w \<Longrightarrow> step n w w'"
  by (auto simp: step_def attr_rel_refl)

lemma applyUserData_image_heap:
  "applyUserData_image a s = Some s' \<Longrightarrow>
     attributes (snd s') = attributes (snd s) \<and> stateSets (snd s') = stateSets (snd s) \<and>
     length (imageObjs (snd s')) = length (imageObjs (snd s)) \<and>
     logged (snd s') = logged (snd s)"
  by (auto simp: applyUserData_image_def Let_def split: option.splits prod.splits)

lemma apply_images_heap:
  "apply_images l s = Some s' \<Longrightarrow>
     attributes (snd s') = attributes (snd s) \<and> stateSets (snd s') = stateSets (snd s) \<and>
     length (imageObjs (snd s')) = length (imageObjs (snd s)) \<and>
     logged (snd s') = logged (snd s)"
proof (induction l s rule: apply_images.induct)
  case (1 s)
  then show ?case by simp
next
  case (2 rest s)
  then show ?case by simp
next
  case (3 i rest s)
  from "3.prems" obtain s1 where a: "applyUserData_image i s = Some s1"
    and b: "apply_images rest s1 = Some s'"
    by (auto split: option.splits)
  from applyUserData_image_heap[OF a] "3.IH"[OF a b] show ?case by simp
qed

lemma applyUserData_attribute_heap:
  assumes "applyUserData_attribute a s = Some s'"
  shows "a < length (attributes (snd s)) \<and>
         attributes (snd s') = (attributes (snd s))[a := stripped (attributes (snd s) ! a)] \<and>
         stateSets (snd s') = stateSets (snd s) \<and> imageObjs (snd s') = imageObjs (snd s) \<and>
         logged (snd s') = logged (snd s)"
  using assms
  by (auto simp: applyUserData_attribute_def applyUserData_def stripped_def lookup_def Let_def
      split: option.splits StateAttribute.splits if_splits)

lemma attr_rel_stripped_ok:
  "(a < n \<longrightarrow> (\<exists>obj. x = OtherAttribute obj)) \<Longrightarrow> attr_rel n a x (stripped x)"
  by (cases x) (auto simp: attr_rel_def stripped_def)

lemma applyUserData_attribute_step:
  assumes "applyUserData_attribute a s = Some s'"
    and "a < n \<longrightarrow> (\<exists>obj. attributes (snd s) ! a = OtherAttribute obj)"
  shows "step n (snd s) (snd s')"
proof -
  note h = applyUserData_attribute_heap[OF assms(1)]
  have "attr_rel n b (attributes (snd s) ! b) (attributes (snd s') ! b)"
    if "b < length (attributes (snd s))" for b
  proof (cases "b = a")
    case True
    with h that attr_rel_stripped_ok[OF assms(2)] show ?thesis by simp
  next
    case False
    with h show ?thesis by (simp add: attr_rel_refl)
  qed
  with h show ?thesis by (auto simp: step_def)
qed

lemma step_length: "step n w w' \<Longrightarrow> n \<le> length (attributes w) \<Longrightarrow> n \<le> length (attributes w')"
  by (simp add: step_def)

lemma apply_attributes_step:
  "apply_attributes l s = Some s' \<Longrightarrow> okList n (snd s) l \<Longrightarrow> n \<le> length (attributes (snd s)) \<Longrightarrow>
     step n (snd s) (snd s')"
proof (induction l arbitrary: s)
  case Nil
  then show ?case by (simp add: step_refl)
next
  case (Cons j rest)
  obtain key sa ov where j: "j = (key, (sa, ov))" by (cases j) auto
  from Cons.prems(1) j obtain a s1 where sa: "sa = Some a"
    and 1: "applyUserData_attribute a s = Some s1"
    and 2: "apply_attributes rest s1 = Some s'"
    by (auto split: option.splits)
  from Cons.prems(2) j sa have "a < n \<longrightarrow> (\<exists>obj. attributes (snd s) ! a = OtherAttribute obj)"
    by (auto simp: okList_def)
  from applyUserData_attribute_step[OF 1 this] have st: "step n (snd s) (snd s1)" .
  from Cons.prems(2) have "okList n (snd s) rest" by (simp add: okList_def)
  from okList_step[OF this st Cons.prems(3)] have ok: "okList n (snd s1) rest" .
  from Cons.IH[OF 2 ok step_length[OF st Cons.prems(3)]] st show ?case
    by (blast intro: step_trans)
qed

lemma apply_textureEntry_texture:
  assumes run: "apply_textureEntry cloneable j s = Some (j', s')"
    and j: "fst (snd j) = Some sa"
    and tex: "lookup (attributes (snd s)) sa = Some (TextureAttribute tex)"
  shows "attributes (snd s') =
           (if cloneable sa
            then (attributes (snd s))[sa := TextureAttribute (tex\<lparr>unRefImageDataAfterApply := False\<rparr>)] @
                 [TextureAttribute (tex\<lparr>userDataContainer := None, unRefImageDataAfterApply := False\<rparr>)]
            else (attributes (snd s))[sa := TextureAttribute (tex\<lparr>unRefImageDataAfterApply := False\<rparr>)]) \<and>
         j' = (if cloneable sa then (fst j, (Some (length (attributes (snd s))), snd (snd j))) else j) \<and>
         stateSets (snd s') = stateSets (snd s) \<and>
         logged (snd s') =
           (if cloneable sa then logged (snd s)
            else logged (snd s) @ [OE_WARN ''[PrepareForCaching] Texture clone failed.\<newline>''])"
proof (cases "cloneable sa")
  case False
  with run j tex show ?thesis
    by (auto simp: apply_textureEntry_def Let_def)
next
  case True
  define tex' where "tex' = tex\<lparr>unRefImageDataAfterApply := False\<rparr>"
  define w2 where "w2 = (snd s)\<lparr>attributes :=
      (attributes (snd s))[sa := TextureAttribute tex'] @ [TextureAttribute tex']\<rparr>"
  from run j tex True obtain s3 s4 where
    3: "apply_images (images tex') (fst s, w2) = Some s3"
    and 4: "applyUserData_attribute (length (attributes (snd s))) s3 = Some s4"
    and r: "j' = (fst j, (Some (length (attributes (snd s))), snd (snd j)))" "s' = s4"
    by (auto simp: apply_textureEntry_def Let_def tex'_def w2_def split: option.splits)
  from apply_images_heap[OF 3]
  have h3: "attributes (snd s3) = (attributes (snd s))[sa := TextureAttribute tex'] @ [TextureAttribute tex']"
    "stateSets (snd s3) = stateSets (snd s)"
    by (simp_all add: w2_def)
  have l3: "logged (snd s3) = logged (snd s)"
    using apply_images_heap[OF 3] by (simp add: w2_def)
  note h4 = applyUserData_attribute_heap[OF 4]
  have len: "length (attributes (snd s)) =
     length ((attributes (snd s))[sa := TextureAttribute tex'])"
    by simp
  have a4: "attributes (snd s4) =
     (attributes (snd s))[sa := TextureAttribute tex'] @ [stripped (TextureAttribute tex')]"
    using h4 unfolding h3 by (subst (asm) (2 3) len) (simp only: list_update_length nth_append_length)
  show ?thesis
    using True r a4 h4 h3 l3 by (simp add: stripped_def tex'_def)
qed

lemma apply_textureEntry_step:
  assumes run: "apply_textureEntry cloneable j s = Some (j', s')"
    and n: "n \<le> length (attributes (snd s))"
  shows "step n (snd s) (snd s')"
proof (cases "fst (snd j)")
  case None
  with run show ?thesis by (simp add: apply_textureEntry_def step_refl)
next
  case (Some sa)
  from run Some obtain x where l: "lookup (attributes (snd s)) sa = Some x"
    by (auto simp: apply_textureEntry_def split: option.splits)
  then have sa: "sa < length (attributes (snd s))" and x: "attributes (snd s) ! sa = x"
    by (auto simp: lookup_def split: if_splits)
  show ?thesis
  proof (cases x)
    case (OtherAttribute obj)
    with run Some l have "applyUserData_attribute sa s = Some s'"
      by (auto simp: apply_textureEntry_def split: option.splits)
    from applyUserData_attribute_step[OF this] x OtherAttribute show ?thesis by simp
  next
    case (TextureAttribute tex)
    note e = apply_textureEntry_texture[OF run Some l[unfolded TextureAttribute]]
    have r: "attr_rel n b (attributes (snd s) ! b) (attributes (snd s') ! b)"
      if "b < length (attributes (snd s))" for b
    proof (cases "b = sa")
      case True
      with e sa x TextureAttribute show ?thesis
        by (auto simp: attr_rel_def nth_append)
    next
      case False
      with e that show ?thesis by (auto simp: attr_rel_refl nth_append)
    qed
    have c: "strippedClone (attributes (snd s') ! b)"
      if "length (attributes (snd s)) \<le> b" "b < length (attributes (snd s'))" for b
    proof -
      from e that have "cloneable sa \<and> b = length (attributes (snd s))"
        by (auto split: if_splits)
      with e show ?thesis
        by (simp add: strippedClone_def
            nth_append_length[of "(attributes (snd s))[sa := y]" for y, simplified])
    qed
    from e have "length (attributes (snd s)) \<le> length (attributes (snd s'))"
      by (auto split: if_splits)
    with r c e show ?thesis by (auto simp: step_def)
  qed
qed

lemma apply_textureAttributes_step:
  "apply_textureAttributes cloneable l s = Some (l', s') \<Longrightarrow>
     n \<le> length (attributes (snd s)) \<Longrightarrow> step n (snd s) (snd s')"
proof (induction l arbitrary: s l')
  case Nil
  then show ?case by (simp add: step_refl)
next
  case (Cons j rest)
  from Cons.prems(1) obtain j1 s1 r1 where
    1: "apply_textureEntry cloneable j s = Some (j1, s1)"
    and 2: "apply_textureAttributes cloneable rest s1 = Some (r1, s')"
    by (auto split: option.splits)
  from apply_textureEntry_step[OF 1 Cons.prems(2)] have st: "step n (snd s) (snd s1)" .
  from Cons.IH[OF 2 step_length[OF st Cons.prems(2)]] st show ?case
    by (blast intro: step_trans)
qed

lemma apply_textureUnits_step:
  "apply_textureUnits cloneable l s = Some (l', s') \<Longrightarrow>
     n \<le> length (attributes (snd s)) \<Longrightarrow> step n (snd s) (snd s')"
proof (induction l arbitrary: s l')
  case Nil
  then show ?case by (simp add: step_refl)
next
  case (Cons b rest)
  from Cons.prems(1) obtain b1 s1 r1 where
    1: "apply_textureAttributes cloneable b s = Some (b1, s1)"
    and 2: "apply_textureUnits cloneable rest s1 = Some (r1, s')"
    by (auto split: option.splits)
  from apply_textureAttributes_step[OF 1 Cons.prems(2)] have st: "step n (snd s) (snd s1)" .
  from Cons.IH[OF 2 step_length[OF st Cons.prems(2)]] st show ?case
    by (blast intro: step_trans)
qed

lemma apply_StateSet_step:
  assumes run: "apply_StateSet cloneable ss s = Some s'" and wf: "wfn n (snd s)"
  shows "step n (snd s) (snd s')"
proof (cases ss)
  case None
  with run show ?thesis by (simp add: apply_StateSet_def step_refl)
next
  case (Some p)
  from run Some obtain stateset s1 a s2 where
    l: "lookup (stateSets (snd s)) p = Some stateset"
    and 1: "apply_attributes (attributeList stateset) s = Some s1"
    and 2: "apply_textureUnits cloneable (textureAttributeList stateset) s1 = Some (a, s2)"
    and r: "snd s' = (snd s2)\<lparr>stateSets := (stateSets (snd s2))
        [p := fst (applyUserData (stateset\<lparr>textureAttributeList := a\<rparr>) (fst s2))]\<rparr>"
    by (auto simp: apply_StateSet_def Let_def split: option.splits prod.splits)
  from l have p: "p < length (stateSets (snd s))" and ss: "stateSets (snd s) ! p = stateset"
    by (auto simp: lookup_def split: if_splits)
  from wf have n: "n \<le> length (attributes (snd s))" by (simp add: wfn_def)
  from p ss wf have "okList n (snd s) (attributeList stateset)"
    by (auto simp: wfn_def)
  from apply_attributes_step[OF 1 this n] have st1: "step n (snd s) (snd s1)" .
  from apply_textureUnits_step[OF 2 step_length[OF st1 n]] have st2: "step n (snd s1) (snd s2)" .
  from step_trans[OF st1 st2] have st: "step n (snd s) (snd s2)" .
  then have m: "map attributeList (stateSets (snd s2)) = map attributeList (stateSets (snd s))"
    by (simp add: step_def)
  have "map attributeList ((stateSets (snd s2))
        [p := fst (applyUserData (stateset\<lparr>textureAttributeList := a\<rparr>) (fst s2))]) =
        (map attributeList (stateSets (snd s)))[p := attributeList stateset]"
    by (simp add: map_update m applyUserData_def)
  also have "\<dots> = map attributeList (stateSets (snd s))"
    using p ss by (metis list_update_id map_update)
  finally have m': "map attributeList (stateSets (snd s')) = map attributeList (stateSets (snd s))"
    using r by simp
  have "attributes (snd s') = attributes (snd s2)" using r by simp
  with st m' show ?thesis by (simp add: step_def)
qed

lemma apply_Drawable_step:
  assumes "apply_Drawable cloneable d s = Some (d', s')" and "wfn n (snd s)"
  shows "step n (snd s) (snd s')"
proof (cases d)
  case None
  with assms show ?thesis by (simp add: apply_Drawable_def step_refl)
next
  case (Some dr)
  with assms(1) obtain s1 where 1: "apply_StateSet cloneable (drawableStateSet dr) s = Some s1"
    and "snd s' = snd s1"
    by (auto simp: apply_Drawable_def Let_def split: option.splits prod.splits)
  with apply_StateSet_step[OF 1 assms(2)] show ?thesis by simp
qed

lemma apply_Drawables_step:
  "apply_Drawables cloneable l s = Some (l', s') \<Longrightarrow> wfn n (snd s) \<Longrightarrow> step n (snd s) (snd s')"
proof (induction l arbitrary: s l')
  case Nil
  then show ?case by (simp add: step_refl)
next
  case (Cons d rest)
  from Cons.prems(1) obtain d1 s1 r1 where
    1: "apply_Drawable cloneable d s = Some (d1, s1)"
    and 2: "apply_Drawables cloneable rest s1 = Some (r1, s')"
    by (auto split: option.splits)
  from apply_Drawable_step[OF 1 Cons.prems(2)] have st: "step n (snd s) (snd s1)" .
  from Cons.IH[OF 2 wfn_step[OF Cons.prems(2) st]] st show ?case
    by (blast intro: step_trans)
qed

lemma accept_traverse_step:
  "(accept cloneable node s = Some (node', s') \<longrightarrow> wfn n (snd s) \<longrightarrow> step n (snd s) (snd s'))"
  "(traverse cloneable children s = Some (children', s') \<longrightarrow> wfn n (snd s) \<longrightarrow>
      step n (snd s) (snd s'))"
proof (induction cloneable node s and cloneable children s arbitrary: node' s' and children' s'
    rule: accept_traverse.induct)
  case (1 cloneable node children s)
  show ?case
  proof (intro impI)
    assume run: "accept cloneable (Node node children) s = Some (node', s')"
      and wf: "wfn n (snd s)"
    from run obtain s1 c2 where
      a: "apply_StateSet cloneable (stateSet node) s = Some s1"
      and b: "traverse cloneable children (snd (applyUserData node (fst s1)), snd s1) = Some (c2, s')"
      by (auto simp: Let_def split: option.splits prod.splits)
    from apply_StateSet_step[OF a wf] have st1: "step n (snd s) (snd s1)" .
    obtain node1 v1 where au: "applyUserData node (fst s1) = (node1, v1)"
      by (cases "applyUserData node (fst s1)") auto
    from "1.IH"[OF a au[symmetric] refl, of c2 s'] b au wfn_step[OF wf st1]
    have "step n (snd s1) (snd s')" by simp
    with st1 show "step n (snd s) (snd s')" by (blast intro: step_trans)
  qed
next
  case (2 cloneable geode drawables children s)
  show ?case
  proof (intro impI)
    assume run: "accept cloneable (Geode geode drawables children) s = Some (node', s')"
      and wf: "wfn n (snd s)"
    from run obtain d0 s0 s1 c2 where
      d: "apply_Drawables cloneable drawables s = Some (d0, s0)"
      and a: "apply_StateSet cloneable (stateSet geode) s0 = Some s1"
      and b: "traverse cloneable children (snd (applyUserData geode (fst s1)), snd s1) = Some (c2, s')"
      by (auto simp: Let_def split: option.splits prod.splits)
    from apply_Drawables_step[OF d wf] have st0: "step n (snd s) (snd s0)" .
    from apply_StateSet_step[OF a wfn_step[OF wf st0]] have st1: "step n (snd s0) (snd s1)" .
    obtain node1 v1 where au: "applyUserData geode (fst s1) = (node1, v1)"
      by (cases "applyUserData geode (fst s1)") auto
    from "2.IH"[OF d refl a au[symmetric] refl, of c2 s'] b au
      wfn_step[OF wfn_step[OF wf st0] st1]
    have "step n (snd s1) (snd s')" by simp
    with st0 st1 show "step n (snd s) (snd s')" by (blast intro: step_trans)
  qed
next
  case (3 cloneable s)
  show ?case by (auto simp: step_refl)
next
  case (4 cloneable child rest s)
  show ?case
  proof (intro impI)
    assume run: "traverse cloneable (child # rest) s = Some (children', s')"
      and wf: "wfn n (snd s)"
    from run obtain c1 s1 r1 where
      a: "accept cloneable child s = Some (c1, s1)"
      and b: "traverse cloneable rest s1 = Some (r1, s')"
      by (auto split: option.splits)
    from "4.IH"(1)[of c1 s1] a wf have st1: "step n (snd s) (snd s1)" by simp
    from "4.IH"(2)[OF a refl, of r1 s'] b wfn_step[OF wf st1]
    have "step n (snd s1) (snd s')" by simp
    with st1 show "step n (snd s) (snd s')" by (blast intro: step_trans)
  qed
qed

lemma noTexture_wfn:
  assumes "attributeListsHoldNoTexture w"
  shows "wfn (length (attributes w)) w"
  unfolding wfn_def okList_def
proof (intro conjI ballI allI impI)
  show "length (attributes w) \<le> length (attributes w)" by simp
next
  fix l j a
  assume l: "l \<in> set (map attributeList (stateSets w))" and j: "j \<in> set l"
    and a: "fst (snd j) = Some a \<and> a < length (attributes w)"
  from l obtain ss where ss: "ss \<in> set (stateSets w)" "l = attributeList ss" by auto
  with assms j a have "case lookup (attributes w) a of
               Some (TextureAttribute t) \<Rightarrow> False | _ \<Rightarrow> True"
    by (fastforce simp: attributeListsHoldNoTexture_def)
  with a show "\<exists>obj. attributes w ! a = OtherAttribute obj"
    by (cases "attributes w ! a") (auto simp: lookup_def)
qed

lemma step_original:
  assumes "step (length (attributes w)) w w'"
    and "lookup (attributes w) a = Some (TextureAttribute t)"
  shows "\<exists>t'. lookup (attributes w') a = Some (TextureAttribute t') \<and>
           userDataContainer t' = userDataContainer t \<and> images t' = images t \<and>
           (unRefImageDataAfterApply t' \<longrightarrow> unRefImageDataAfterApply t)"
proof -
  from assms(2) have a: "a < length (attributes w)" and x: "attributes w ! a = TextureAttribute t"
    by (auto simp: lookup_def split: if_splits)
  from assms(1) a have "attr_rel (length (attributes w)) a (attributes w ! a) (attributes w' ! a)"
    and "a < length (attributes w')"
    by (auto simp: step_def)
  with x a show ?thesis
    by (cases "attributes w' ! a") (auto simp: attr_rel_def lookup_def)
qed

lemma step_clones:
  assumes "step n w w'" and "length (attributes w) \<le> c" and "c < length (attributes w')"
  shows "\<exists>t. attributes w' ! c = TextureAttribute t \<and> userDataContainer t = None \<and>
           \<not> unRefImageDataAfterApply t"
proof -
  from assms have "strippedClone (attributes w' ! c)" by (simp add: step_def)
  then show ?thesis by (cases "attributes w' ! c") (auto simp: strippedClone_def)
qed

section \<open>The preparation on the example graph\<close>

lemmas example_defs = exampleNode_def exampleWorld_def exampleStateSet_def exampleTexture_def
  exampleImage_def neverCloneable_def alwaysCloneable_def PrepareForCaching_new_def

lemmas prep_defs = apply_StateSet_def apply_textureEntry_def applyUserData_attribute_def
  applyUserData_image_def applyUserData_def getUserData_def apply_Drawable_def lookup_def Let_def

lemma accept_example_neverCloneable:
  "accept neverCloneable exampleNode (PrepareForCaching_new, exampleWorld) =
     Some (exampleNode, \<lparr>textures = 0, userDataClears = 1\<rparr>,
       exampleWorld\<lparr>attributes :=
         [TextureAttribute (exampleTexture\<lparr>unRefImageDataAfterApply := False\<rparr>),
          OtherAttribute \<lparr>userDataContainer = None\<rparr>],
         logged := [OE_WARN ''[PrepareForCaching] Texture clone failed.\<newline>'',
                    OE_WARN ''[PrepareForCaching] Texture clone failed.\<newline>'']\<rparr>)"
  by (simp add: example_defs prep_defs)

lemma accept_example_alwaysCloneable:
  "accept alwaysCloneable exampleNode (PrepareForCaching_new, exampleWorld) =
     Some (exampleNode, \<lparr>textures = 0, userDataClears = 2\<rparr>,
       exampleWorld\<lparr>
         stateSets := [exampleStateSet\<lparr>textureAttributeList := [[((1, 0), (Some 3, 0))]]\<rparr>],
         attributes :=
         [TextureAttribute (exampleTexture\<lparr>unRefImageDataAfterApply := False\<rparr>),
          OtherAttribute \<lparr>userDataContainer = None\<rparr>,
          TextureAttribute (exampleTexture\<lparr>userDataContainer := None, unRefImageDataAfterApply := False\<rparr>),
          TextureAttribute (exampleTexture\<lparr>userDataContainer := None, unRefImageDataAfterApply := False\<rparr>)]\<rparr>)"
  by (simp add: example_defs prep_defs)

lemma prepare_frame:
  assumes run: "accept cloneable node (v, w) = Some (node', v', w')"
    and wf: "attributeListsHoldNoTexture w"
    and tex: "lookup (attributes w) a = Some (TextureAttribute t)"
  shows "(\<exists>t'. lookup (attributes w') a = Some (TextureAttribute t') \<and>
            userDataContainer t' = userDataContainer t \<and> images t' = images t \<and>
            (unRefImageDataAfterApply t' \<longrightarrow> unRefImageDataAfterApply t)) \<and>
         (\<forall>c. length (attributes w) \<le> c \<and> c < length (attributes w') \<longrightarrow>
            (\<exists>tc. attributes w' ! c = TextureAttribute tc \<and> userDataContainer tc = None \<and>
               \<not> unRefImageDataAfterApply tc))"
proof -
  from accept_traverse_step(1)[of cloneable node "(v, w)" node' "(v', w')" "length (attributes w)"]
    run noTexture_wfn[OF wf]
  have st: "step (length (attributes w)) w w'" by simp
  from step_original[OF st tex] step_clones[OF st] show ?thesis by blast
qed

lemma entry_frame:
  assumes entry: "apply_textureEntry cloneable j s = Some (j', s')"
    and slot: "fst (snd j) = Some sa"
    and orig: "lookup (attributes (snd s)) sa = Some (TextureAttribute tex)"
  shows "lookup (attributes (snd s')) sa =
           Some (TextureAttribute (tex\<lparr>unRefImageDataAfterApply := False\<rparr>)) \<and>
         (if cloneable sa
          then j' = (fst j, (Some (length (attributes (snd s))), snd (snd j))) \<and>
               lookup (attributes (snd s')) (length (attributes (snd s))) =
                 Some (TextureAttribute
                   (tex\<lparr>userDataContainer := None, unRefImageDataAfterApply := False\<rparr>))
          else j' = j \<and> length (attributes (snd s')) = length (attributes (snd s)) \<and>
               logged (snd s') =
                 logged (snd s) @ [OE_WARN ''[PrepareForCaching] Texture clone failed.\<newline>''])"
proof -
  note e = apply_textureEntry_texture[OF entry slot orig]
  from orig have sa: "sa < length (attributes (snd s))"
    by (simp add: lookup_def split: if_splits)
  from e sa show ?thesis by (simp add: lookup_def nth_append)
qed

lemma accept_example_cloned:
  "accept alwaysCloneable exampleNode (PrepareForCaching_new, exampleWorld) =
     Some (exampleNode, \<lparr>textures = 0, userDataClears = 2\<rparr>, exampleWorldCloned)"
  unfolding exampleWorldCloned_def by (rule accept_example_alwaysCloneable)

section \<open>The externalizer on the example graph\<close>

lemma imagesOfNode_example:
  "imagesOfNode (stateSets exampleWorld) (attributes exampleWorld) exampleNode = Some [0, 0]"
  by (simp add: example_defs imagesOfStateSet_def imagesOfDrawable_def imagesOfEntry_def
      lookup_def List.map_filter_simps)

lemma writeRefs_accept_example:
  "writeRefs_accept exampleHash memBinOps None exampleNode exampleWorld =
     Some exampleWorldExternalized"
  unfolding exampleWorldExternalized_def writeRefs_accept_def imagesOfNode_example
  by (simp add: writeRefs_apply_Image_def writeRefs_apply_def lookup_def Let_def
      exampleWorld_def exampleImage_def cacheKey_example startsWith_def IMAGE_PREFIX_def memBinOps_def)

lemma fileName_example_externalized:
  "map fileName (imageObjs exampleWorldExternalized) = [''i_a1b2c3.osgearth_cachebin'']"
  unfolding exampleWorldExternalized_def writeRefs_accept_def imagesOfNode_example
  by (simp add: writeRefs_apply_Image_def writeRefs_apply_def lookup_def Let_def
      exampleWorld_def exampleImage_def cacheKey_example startsWith_def IMAGE_PREFIX_def memBinOps_def)

lemma writeRefs_apply_Images_example:
  "writeRefs_apply_Images exampleHash memBinOps None [0, 0] exampleWorld =
     Some exampleWorldExternalized"
  using writeRefs_accept_example
  by (simp add: writeRefs_accept_def imagesOfNode_example)

theorem externalizer_second_pass_changes_nothing_witness:
  "writeRefs_accept exampleHash failingBinOps None exampleNode exampleWorldExternalized =
     Some exampleWorldExternalized \<and>
   writeRefs_apply_Images exampleHash failingBinOps None [0, 0] exampleWorldExternalized =
     Some exampleWorldExternalized \<and>
   map fileName (imageObjs exampleWorldExternalized) = [''i_a1b2c3.osgearth_cachebin'']"
  using externalizer_second_pass_changes_nothing[OF writeRefs_accept_example
      writeRefs_apply_Images_example, of exampleHash failingBinOps None]
    fileName_example_externalized
  by simp

section \<open>Well-formed graphs: the visitors return\<close>

lemma grows_refl: "grows w w"
  by (simp add: grows_def)

lemma grows_trans: "grows w w1 \<Longrightarrow> grows w1 w2 \<Longrightarrow> grows w w2"
  by (simp add: grows_def)

lemma pointerValid_mono: "pointerValid len p \<Longrightarrow> len \<le> len' \<Longrightarrow> pointerValid len' p"
  by (cases p) (simp_all add: pointerValid_def)

lemma entryValid_mono: "entryValid len j \<Longrightarrow> len \<le> len' \<Longrightarrow> entryValid len' j"
  by (simp add: entryValid_def pointerValid_mono)

lemma entryBound_mono: "entryBound len j \<Longrightarrow> len \<le> len' \<Longrightarrow> entryBound len' j"
  by (cases "fst (snd j)") (simp_all add: entryBound_def)

lemma stateSetValid_mono:
  "stateSetValid len ss \<Longrightarrow> len \<le> len' \<Longrightarrow> stateSetValid len' ss"
  by (auto simp: stateSetValid_def list_all_iff intro: entryBound_mono entryValid_mono)

lemma attributeValid_stripped: "attributeValid len (stripped x) = attributeValid len x"
  by (cases x) (simp_all add: attributeValid_def stripped_def)

lemma list_all_update:
  "list_all P xs \<Longrightarrow> P x \<Longrightarrow> list_all P (xs[i := x])"
  by (metis insertE list_all_iff set_update_subset_insert subsetD)

lemma heapValid_images:
  assumes "heapValid w" and "attributes w' = attributes w" and "stateSets w' = stateSets w"
    and "length (imageObjs w') = length (imageObjs w)"
  shows "heapValid w'"
  using assms by (simp add: heapValid_def)

lemma applyUserData_image_Some:
  assumes "i < length (imageObjs (snd s))"
  shows "\<exists>s'. applyUserData_image i s = Some s'"
  using assms by (simp add: applyUserData_image_def lookup_def Let_def split: prod.splits)

lemma apply_images_Some:
  "list_all (pointerValid (length (imageObjs (snd s)))) l \<Longrightarrow> \<exists>s'. apply_images l s = Some s'"
proof (induction l s rule: apply_images.induct)
  case (1 s)
  then show ?case by simp
next
  case (2 rest s)
  then show ?case by simp
next
  case (3 i rest s)
  from "3.prems" have i: "i < length (imageObjs (snd s))" by (simp add: pointerValid_def)
  from applyUserData_image_Some[OF i] obtain s1 where 1: "applyUserData_image i s = Some s1"
    by blast
  from applyUserData_image_heap[OF 1] "3.prems"
  have "list_all (pointerValid (length (imageObjs (snd s1)))) rest" by simp
  from "3.IH"[OF 1 this] 1 show ?case by simp
qed

lemma applyUserData_attribute_Some:
  assumes "a < length (attributes (snd s))"
  shows "\<exists>s'. applyUserData_attribute a s = Some s'"
  using assms
  by (simp add: applyUserData_attribute_def lookup_def Let_def
      split: prod.splits StateAttribute.splits)

lemma applyUserData_attribute_valid:
  assumes "applyUserData_attribute a s = Some s'" and "heapValid (snd s)"
  shows "heapValid (snd s') \<and> grows (snd s) (snd s')"
proof -
  note h = applyUserData_attribute_heap[OF assms(1)]
  from h assms(2) have "list_all (attributeValid (length (imageObjs (snd s')))) (attributes (snd s'))"
    by (auto simp: heapValid_def attributeValid_stripped list_all_length nth_list_update)
  with h assms(2) show ?thesis by (simp add: heapValid_def grows_def)
qed

lemma apply_attributes_valid:
  "list_all (entryBound (length (attributes (snd s)))) l \<Longrightarrow> heapValid (snd s) \<Longrightarrow>
     \<exists>s'. apply_attributes l s = Some s' \<and> heapValid (snd s') \<and> grows (snd s) (snd s')"
proof (induction l arbitrary: s)
  case Nil
  then show ?case by (simp add: grows_refl)
next
  case (Cons j rest)
  obtain key sa ov where j: "j = (key, (sa, ov))" by (cases j) auto
  from Cons.prems(1) j obtain a where sa: "sa = Some a" and a: "a < length (attributes (snd s))"
    by (auto simp: entryBound_def split: option.splits)
  from applyUserData_attribute_Some[OF a] obtain s1 where
    1: "applyUserData_attribute a s = Some s1" by blast
  from applyUserData_attribute_valid[OF 1 Cons.prems(2)]
  have v: "heapValid (snd s1)" and g: "grows (snd s) (snd s1)" by simp_all
  from Cons.prems(1) g have "list_all (entryBound (length (attributes (snd s1)))) rest"
    by (auto simp: list_all_iff grows_def intro: entryBound_mono)
  from Cons.IH[OF this v] obtain s' where
    "apply_attributes rest s1 = Some s'" "heapValid (snd s')" "grows (snd s1) (snd s')"
    by blast
  with 1 j sa g show ?case by (auto intro: grows_trans)
qed

lemma heapValid_attribute:
  "heapValid w \<Longrightarrow> a < length (attributes w) \<Longrightarrow>
     attributeValid (length (imageObjs w)) (attributes w ! a)"
  by (simp add: heapValid_def list_all_length)

lemma apply_textureEntry_Some:
  assumes v: "heapValid (snd s)" and j: "entryValid (length (attributes (snd s))) j"
  shows "\<exists>r. apply_textureEntry cloneable j s = Some r"
proof (cases "fst (snd j)")
  case None
  then have "apply_textureEntry cloneable j s = Some (j, s)"
    by (simp add: apply_textureEntry_def)
  then show ?thesis by blast
next
  case (Some sa)
  with j have sa: "sa < length (attributes (snd s))"
    by (simp add: entryValid_def pointerValid_def)
  then have l: "lookup (attributes (snd s)) sa = Some (attributes (snd s) ! sa)"
    by (simp add: lookup_def)
  show ?thesis
  proof (cases "attributes (snd s) ! sa")
    case (OtherAttribute obj)
    from applyUserData_attribute_Some[OF sa] obtain s1 where
      "applyUserData_attribute sa s = Some s1" by blast
    with Some l OtherAttribute have "apply_textureEntry cloneable j s = Some (j, s1)"
      by (simp add: apply_textureEntry_def)
    then show ?thesis by blast
  next
    case (TextureAttribute tex)
    show ?thesis
    proof (cases "cloneable sa")
      case False
      with Some l TextureAttribute have "apply_textureEntry cloneable j s \<noteq> None"
        by (simp add: apply_textureEntry_def Let_def)
      then show ?thesis by blast
    next
      case True
      define tex' where "tex' = tex\<lparr>unRefImageDataAfterApply := False\<rparr>"
      define w2 where "w2 = (snd s)\<lparr>attributes :=
        (attributes (snd s))[sa := TextureAttribute tex'] @ [TextureAttribute tex']\<rparr>"
      from heapValid_attribute[OF v sa] TextureAttribute
      have "list_all (pointerValid (length (imageObjs (snd (fst s, w2))))) (images tex')"
        by (simp add: attributeValid_def tex'_def w2_def)
      from apply_images_Some[OF this] obtain s3 where
        3: "apply_images (images tex') (fst s, w2) = Some s3" by blast
      from apply_images_heap[OF 3]
      have "length (attributes (snd s)) < length (attributes (snd s3))"
        by (simp add: w2_def)
      from applyUserData_attribute_Some[OF this] obtain s4 where
        "applyUserData_attribute (length (attributes (snd s))) s3 = Some s4" by blast
      with 3 Some l TextureAttribute True have "apply_textureEntry cloneable j s \<noteq> None"
        by (simp add: apply_textureEntry_def Let_def tex'_def w2_def)
      then show ?thesis by blast
    qed
  qed
qed

lemma apply_images_imageObjs_length:
  "apply_images l s = Some s' \<Longrightarrow> length (imageObjs (snd s')) = length (imageObjs (snd s))"
  using apply_images_heap by blast

lemma apply_textureEntry_imageObjs:
  assumes run: "apply_textureEntry cloneable j s = Some (j', s')"
  shows "length (imageObjs (snd s')) = length (imageObjs (snd s))"
proof (cases "fst (snd j)")
  case None
  with run show ?thesis by (simp add: apply_textureEntry_def)
next
  case (Some sa)
  from run Some obtain x where l: "lookup (attributes (snd s)) sa = Some x"
    by (auto simp: apply_textureEntry_def split: option.splits)
  show ?thesis
  proof (cases x)
    case (OtherAttribute obj)
    with run Some l have "applyUserData_attribute sa s = Some s'"
      by (auto simp: apply_textureEntry_def split: option.splits)
    from applyUserData_attribute_heap[OF this] show ?thesis by simp
  next
    case (TextureAttribute tex)
    show ?thesis
    proof (cases "cloneable sa")
      case False
      with run Some l TextureAttribute show ?thesis
        by (auto simp: apply_textureEntry_def Let_def)
    next
      case True
      define w2 where "w2 = (snd s)\<lparr>attributes :=
        (attributes (snd s))[sa := TextureAttribute (tex\<lparr>unRefImageDataAfterApply := False\<rparr>)] @
        [TextureAttribute (tex\<lparr>unRefImageDataAfterApply := False\<rparr>)]\<rparr>"
      from run Some l TextureAttribute True obtain s3 where
        3: "apply_images (images tex) (fst s, w2) = Some s3"
        and 4: "applyUserData_attribute (length (attributes (snd s))) s3 = Some s'"
        by (auto simp: apply_textureEntry_def Let_def w2_def split: option.splits)
      from apply_images_heap[OF 3] applyUserData_attribute_heap[OF 4] show ?thesis
        by (simp add: w2_def)
    qed
  qed
qed

lemma apply_textureEntry_valid:
  assumes run: "apply_textureEntry cloneable j s = Some (j', s')"
    and v: "heapValid (snd s)" and j: "entryValid (length (attributes (snd s))) j"
  shows "heapValid (snd s') \<and> grows (snd s) (snd s') \<and>
         entryValid (length (attributes (snd s'))) j'"
proof (cases "fst (snd j)")
  case None
  with run v j show ?thesis by (auto simp: apply_textureEntry_def grows_refl)
next
  case (Some sa)
  with j have sa: "sa < length (attributes (snd s))"
    by (simp add: entryValid_def pointerValid_def)
  then have l: "lookup (attributes (snd s)) sa = Some (attributes (snd s) ! sa)"
    by (simp add: lookup_def)
  show ?thesis
  proof (cases "attributes (snd s) ! sa")
    case (OtherAttribute obj)
    with run Some l have 1: "applyUserData_attribute sa s = Some s'" and "j' = j"
      by (auto simp: apply_textureEntry_def split: option.splits)
    with applyUserData_attribute_valid[OF 1 v] j show ?thesis
      by (auto simp: grows_def intro: entryValid_mono)
  next
    case (TextureAttribute tex)
    note e = apply_textureEntry_texture[OF run Some l[unfolded TextureAttribute]]
    note il = apply_textureEntry_imageObjs[OF run]
    from heapValid_attribute[OF v sa] TextureAttribute
    have im: "list_all (pointerValid (length (imageObjs (snd s)))) (images tex)"
      by (simp add: attributeValid_def)
    have len: "length (attributes (snd s)) \<le> length (attributes (snd s'))"
      using e by (auto split: if_splits)
    have g: "grows (snd s) (snd s')"
      using e il len by (simp add: grows_def)
    have av: "list_all (attributeValid (length (imageObjs (snd s')))) (attributes (snd s'))"
      using e il v im
      by (auto simp: heapValid_def attributeValid_def intro!: list_all_update)
    have sv: "list_all (stateSetValid (length (attributes (snd s')))) (stateSets (snd s'))"
      using e v len by (auto simp: heapValid_def list_all_iff intro: stateSetValid_mono)
    have jv: "entryValid (length (attributes (snd s'))) j'"
      using e j len by (auto simp: entryValid_def pointerValid_def Some split: if_splits)
    from av sv g jv show ?thesis by (simp add: heapValid_def)
  qed
qed

lemma apply_textureAttributes_valid:
  "list_all (entryValid (length (attributes (snd s)))) l \<Longrightarrow> heapValid (snd s) \<Longrightarrow>
     \<exists>l' s'. apply_textureAttributes cloneable l s = Some (l', s') \<and> heapValid (snd s') \<and>
       grows (snd s) (snd s') \<and> list_all (entryValid (length (attributes (snd s')))) l'"
proof (induction l arbitrary: s)
  case Nil
  then show ?case by (simp add: grows_refl)
next
  case (Cons j rest)
  from Cons.prems have j: "entryValid (length (attributes (snd s))) j" by simp
  from apply_textureEntry_Some[OF Cons.prems(2) j] obtain j1 s1 where
    1: "apply_textureEntry cloneable j s = Some (j1, s1)" by (metis surj_pair)
  from apply_textureEntry_valid[OF 1 Cons.prems(2) j]
  have v: "heapValid (snd s1)" and g: "grows (snd s) (snd s1)"
    and j1: "entryValid (length (attributes (snd s1))) j1" by simp_all
  from Cons.prems(1) g have "list_all (entryValid (length (attributes (snd s1)))) rest"
    by (auto simp: list_all_iff grows_def intro: entryValid_mono)
  from Cons.IH[OF this v] obtain r1 s' where
    2: "apply_textureAttributes cloneable rest s1 = Some (r1, s')" and v': "heapValid (snd s')"
    and g': "grows (snd s1) (snd s')"
    and r1: "list_all (entryValid (length (attributes (snd s')))) r1"
    by blast
  from j1 g' have "entryValid (length (attributes (snd s'))) j1"
    by (auto simp: grows_def intro: entryValid_mono)
  with 1 2 v' r1 grows_trans[OF g g'] show ?case by simp
qed

lemma apply_textureUnits_valid:
  "list_all (list_all (entryValid (length (attributes (snd s))))) l \<Longrightarrow> heapValid (snd s) \<Longrightarrow>
     \<exists>l' s'. apply_textureUnits cloneable l s = Some (l', s') \<and> heapValid (snd s') \<and>
       grows (snd s) (snd s') \<and>
       list_all (list_all (entryValid (length (attributes (snd s'))))) l'"
proof (induction l arbitrary: s)
  case Nil
  then show ?case by (simp add: grows_refl)
next
  case (Cons b rest)
  from Cons.prems have b: "list_all (entryValid (length (attributes (snd s)))) b" by simp
  from apply_textureAttributes_valid[OF b Cons.prems(2)] obtain b1 s1 where
    1: "apply_textureAttributes cloneable b s = Some (b1, s1)"
    and v: "heapValid (snd s1)" and g: "grows (snd s) (snd s1)"
    and b1: "list_all (entryValid (length (attributes (snd s1)))) b1"
    by blast
  from Cons.prems(1) g have "list_all (list_all (entryValid (length (attributes (snd s1))))) rest"
    by (auto simp: list_all_iff grows_def intro: entryValid_mono)
  from Cons.IH[OF this v] obtain r1 s' where
    2: "apply_textureUnits cloneable rest s1 = Some (r1, s')" and v': "heapValid (snd s')"
    and g': "grows (snd s1) (snd s')"
    and r1: "list_all (list_all (entryValid (length (attributes (snd s'))))) r1"
    by blast
  from b1 g' have "list_all (entryValid (length (attributes (snd s')))) b1"
    by (auto simp: list_all_iff grows_def intro: entryValid_mono)
  with 1 2 v' r1 grows_trans[OF g g'] show ?case by simp
qed

lemma apply_StateSet_valid:
  assumes v: "heapValid (snd s)" and p: "pointerValid (length (stateSets (snd s))) ss"
  shows "\<exists>s'. apply_StateSet cloneable ss s = Some s' \<and> heapValid (snd s') \<and>
           grows (snd s) (snd s')"
proof (cases ss)
  case None
  with v show ?thesis by (simp add: apply_StateSet_def grows_refl)
next
  case (Some p)
  with assms have pl: "p < length (stateSets (snd s))" by (simp add: pointerValid_def)
  define stateset where "stateset = stateSets (snd s) ! p"
  from pl have l: "lookup (stateSets (snd s)) p = Some stateset"
    by (simp add: lookup_def stateset_def)
  from v pl have sv: "stateSetValid (length (attributes (snd s))) stateset"
    by (simp add: heapValid_def list_all_length stateset_def)
  then have "list_all (entryBound (length (attributes (snd s)))) (attributeList stateset)"
    by (simp add: stateSetValid_def)
  from apply_attributes_valid[OF this v] obtain s1 where
    1: "apply_attributes (attributeList stateset) s = Some s1" and v1: "heapValid (snd s1)"
    and g1: "grows (snd s) (snd s1)" by blast
  from sv g1 have "stateSetValid (length (attributes (snd s1))) stateset"
    by (auto simp: grows_def intro: stateSetValid_mono)
  then have "list_all (list_all (entryValid (length (attributes (snd s1)))))
      (textureAttributeList stateset)"
    by (simp add: stateSetValid_def)
  from apply_textureUnits_valid[OF this v1] obtain a s2 where
    2: "apply_textureUnits cloneable (textureAttributeList stateset) s1 = Some (a, s2)"
    and v2: "heapValid (snd s2)" and g2: "grows (snd s1) (snd s2)"
    and a: "list_all (list_all (entryValid (length (attributes (snd s2))))) a"
    by blast
  note g = grows_trans[OF g1 g2]
  define stateset' where
    "stateset' = fst (applyUserData (stateset\<lparr>textureAttributeList := a\<rparr>) (fst s2))"
  define s' where "s' = (snd (applyUserData (stateset\<lparr>textureAttributeList := a\<rparr>) (fst s2)),
      (snd s2)\<lparr>stateSets := (stateSets (snd s2))[p := stateset']\<rparr>)"
  have run: "apply_StateSet cloneable ss s = Some s'"
    using Some l 1 2 by (simp add: apply_StateSet_def Let_def s'_def stateset'_def split: prod.splits)
  from sv g have "list_all (entryBound (length (attributes (snd s2)))) (attributeList stateset)"
    by (auto simp: stateSetValid_def list_all_iff grows_def intro: entryBound_mono)
  with a have "stateSetValid (length (attributes (snd s2))) stateset'"
    by (simp add: stateSetValid_def stateset'_def applyUserData_def)
  with v2 have "heapValid (snd s')"
    by (auto simp: heapValid_def s'_def intro: list_all_update)
  moreover from g have "grows (snd s) (snd s')" by (simp add: grows_def s'_def)
  ultimately show ?thesis using run by blast
qed

lemma apply_Drawable_valid:
  assumes v: "heapValid (snd s)" and d: "drawableValid (length (stateSets (snd s))) d"
  shows "\<exists>d' s'. apply_Drawable cloneable d s = Some (d', s') \<and> heapValid (snd s') \<and>
           grows (snd s) (snd s') \<and> drawableValid (length (stateSets (snd s'))) d'"
proof (cases d)
  case None
  with v show ?thesis by (simp add: apply_Drawable_def grows_refl drawableValid_def)
next
  case (Some dr)
  with d have "pointerValid (length (stateSets (snd s))) (drawableStateSet dr)"
    by (simp add: drawableValid_def)
  from apply_StateSet_valid[OF v this] obtain s1 where
    1: "apply_StateSet cloneable (drawableStateSet dr) s = Some s1" and v1: "heapValid (snd s1)"
    and g1: "grows (snd s) (snd s1)" by blast
  obtain d' v' where au: "applyUserData dr (fst s1) = (d', v')"
    by (cases "applyUserData dr (fst s1)") auto
  then have dd: "drawableStateSet d' = drawableStateSet dr"
    by (auto simp: applyUserData_def)
  from Some 1 au have "apply_Drawable cloneable d s = Some (Some d', (v', snd s1))"
    by (simp add: apply_Drawable_def)
  moreover from d Some dd g1 have "drawableValid (length (stateSets (snd s1))) (Some d')"
    by (simp add: drawableValid_def grows_def)
  ultimately show ?thesis using v1 g1 by simp
qed

lemma apply_Drawables_valid:
  "heapValid (snd s) \<Longrightarrow> list_all (drawableValid (length (stateSets (snd s)))) l \<Longrightarrow>
     \<exists>l' s'. apply_Drawables cloneable l s = Some (l', s') \<and> heapValid (snd s') \<and>
       grows (snd s) (snd s') \<and> list_all (drawableValid (length (stateSets (snd s')))) l'"
proof (induction l arbitrary: s)
  case Nil
  then show ?case by (simp add: grows_refl)
next
  case (Cons d rest)
  from Cons.prems have d: "drawableValid (length (stateSets (snd s))) d" by simp
  from apply_Drawable_valid[OF Cons.prems(1) d] obtain d1 s1 where
    1: "apply_Drawable cloneable d s = Some (d1, s1)" and v1: "heapValid (snd s1)"
    and g1: "grows (snd s) (snd s1)"
    and d1: "drawableValid (length (stateSets (snd s1))) d1" by blast
  from Cons.prems(2) g1 have "list_all (drawableValid (length (stateSets (snd s1)))) rest"
    by (simp add: grows_def)
  from Cons.IH[OF v1 this] obtain r1 s' where
    2: "apply_Drawables cloneable rest s1 = Some (r1, s')" and v': "heapValid (snd s')"
    and g': "grows (snd s1) (snd s')"
    and r1: "list_all (drawableValid (length (stateSets (snd s')))) r1" by blast
  from d1 g' have "drawableValid (length (stateSets (snd s'))) d1" by (simp add: grows_def)
  with 1 2 v' r1 grows_trans[OF g1 g'] show ?case by simp
qed

lemma accept_traverse_valid:
  "heapValid (snd s) \<longrightarrow> nodeValid (length (stateSets (snd s))) node \<longrightarrow>
     (\<exists>node' s'. accept cloneable node s = Some (node', s') \<and> heapValid (snd s') \<and>
        grows (snd s) (snd s') \<and> nodeValid (length (stateSets (snd s'))) node')"
  "heapValid (snd s) \<longrightarrow> list_all (nodeValid (length (stateSets (snd s)))) children \<longrightarrow>
     (\<exists>children' s'. traverse cloneable children s = Some (children', s') \<and>
        heapValid (snd s') \<and> grows (snd s) (snd s') \<and>
        list_all (nodeValid (length (stateSets (snd s')))) children')"
proof (induction cloneable node s and cloneable children s rule: accept_traverse.induct)
  case (1 cloneable node children s)
  show ?case
  proof (intro impI)
    assume v: "heapValid (snd s)"
      and n: "nodeValid (length (stateSets (snd s))) (Node node children)"
    from n have p: "pointerValid (length (stateSets (snd s))) (stateSet node)" by simp
    from apply_StateSet_valid[OF v p] obtain s1 where
      a: "apply_StateSet cloneable (stateSet node) s = Some s1" and v1: "heapValid (snd s1)"
      and g1: "grows (snd s) (snd s1)" by blast
    obtain node1 v' where au: "applyUserData node (fst s1) = (node1, v')"
      by (cases "applyUserData node (fst s1)") auto
    then have ss: "stateSet node1 = stateSet node" by (auto simp: applyUserData_def)
    from n g1 have c: "list_all (nodeValid (length (stateSets (snd (v', snd s1))))) children"
      by (simp add: grows_def)
    from "1.IH"[OF a au[symmetric] refl] v1 c obtain c2 s2 where
      t: "traverse cloneable children (v', snd s1) = Some (c2, s2)" and v2: "heapValid (snd s2)"
      and g2: "grows (snd s1) (snd s2)"
      and c2: "list_all (nodeValid (length (stateSets (snd s2)))) c2" by auto
    from a au t have "accept cloneable (Node node children) s = Some (Node node1 c2, s2)"
      by simp
    moreover from p ss g1 g2 c2 have "nodeValid (length (stateSets (snd s2))) (Node node1 c2)"
      by (simp add: grows_def)
    ultimately show "\<exists>node' s'. accept cloneable (Node node children) s = Some (node', s') \<and>
        heapValid (snd s') \<and> grows (snd s) (snd s') \<and>
        nodeValid (length (stateSets (snd s'))) node'"
      using v2 grows_trans[OF g1 g2] by blast
  qed
next
  case (2 cloneable geode drawables children s)
  show ?case
  proof (intro impI)
    assume v: "heapValid (snd s)"
      and n: "nodeValid (length (stateSets (snd s))) (Geode geode drawables children)"
    from n have dv: "list_all (drawableValid (length (stateSets (snd s)))) drawables" by simp
    from apply_Drawables_valid[OF v dv] obtain d0 s0 where
      d: "apply_Drawables cloneable drawables s = Some (d0, s0)" and v0: "heapValid (snd s0)"
      and g0: "grows (snd s) (snd s0)"
      and d0: "list_all (drawableValid (length (stateSets (snd s0)))) d0" by blast
    from n g0 have p: "pointerValid (length (stateSets (snd s0))) (stateSet geode)"
      by (simp add: grows_def)
    from apply_StateSet_valid[OF v0 p] obtain s1 where
      a: "apply_StateSet cloneable (stateSet geode) s0 = Some s1" and v1: "heapValid (snd s1)"
      and g1: "grows (snd s0) (snd s1)" by blast
    obtain node1 v' where au: "applyUserData geode (fst s1) = (node1, v')"
      by (cases "applyUserData geode (fst s1)") auto
    then have ss: "stateSet node1 = stateSet geode" by (auto simp: applyUserData_def)
    from n g0 g1 have c: "list_all (nodeValid (length (stateSets (snd (v', snd s1))))) children"
      by (simp add: grows_def)
    from "2.IH"[OF d refl a au[symmetric] refl] v1 c obtain c2 s2 where
      t: "traverse cloneable children (v', snd s1) = Some (c2, s2)" and v2: "heapValid (snd s2)"
      and g2: "grows (snd s1) (snd s2)"
      and c2: "list_all (nodeValid (length (stateSets (snd s2)))) c2" by auto
    from d a au t have "accept cloneable (Geode geode drawables children) s =
        Some (Geode node1 d0 c2, s2)"
      by simp
    moreover from p ss d0 g1 g2 c2
    have "nodeValid (length (stateSets (snd s2))) (Geode node1 d0 c2)"
      by (simp add: grows_def)
    ultimately show "\<exists>node' s'. accept cloneable (Geode geode drawables children) s =
          Some (node', s') \<and>
        heapValid (snd s') \<and> grows (snd s) (snd s') \<and>
        nodeValid (length (stateSets (snd s'))) node'"
      using v2 grows_trans[OF g0 grows_trans[OF g1 g2]] by blast
  qed
next
  case (3 cloneable s)
  show ?case by (simp add: grows_refl)
next
  case (4 cloneable child rest s)
  show ?case
  proof (intro impI)
    assume v: "heapValid (snd s)"
      and n: "list_all (nodeValid (length (stateSets (snd s)))) (child # rest)"
    from "4.IH"(1) v n obtain c1 s1 where
      a: "accept cloneable child s = Some (c1, s1)" and v1: "heapValid (snd s1)"
      and g1: "grows (snd s) (snd s1)"
      and c1: "nodeValid (length (stateSets (snd s1))) c1" by auto
    from n g1 have r: "list_all (nodeValid (length (stateSets (snd s1)))) rest"
      by (simp add: grows_def)
    from "4.IH"(2)[OF a refl] v1 r obtain r1 s2 where
      t: "traverse cloneable rest s1 = Some (r1, s2)" and v2: "heapValid (snd s2)"
      and g2: "grows (snd s1) (snd s2)"
      and r1: "list_all (nodeValid (length (stateSets (snd s2)))) r1" by auto
    from a t have "traverse cloneable (child # rest) s = Some (c1 # r1, s2)" by simp
    moreover from c1 r1 g2 have "list_all (nodeValid (length (stateSets (snd s2)))) (c1 # r1)"
      by (simp add: grows_def)
    ultimately show "\<exists>children' s'. traverse cloneable (child # rest) s = Some (children', s') \<and>
        heapValid (snd s') \<and> grows (snd s) (snd s') \<and>
        list_all (nodeValid (length (stateSets (snd s')))) children'"
      using v2 grows_trans[OF g1 g2] by blast
  qed
qed

section \<open>writeNode\<close>

lemma concatOptions_valid:
  "(\<forall>x \<in> set xs. \<exists>l. x = Some l \<and> (\<forall>a \<in> set l. a < n)) \<Longrightarrow>
     \<exists>l. concatOptions xs = Some l \<and> (\<forall>a \<in> set l. a < n)"
proof (induction xs)
  case Nil
  then show ?case by simp
next
  case (Cons x xs)
  from Cons.prems obtain l where x: "x = Some l" and l: "\<forall>a \<in> set l. a < n" by auto
  from Cons.prems Cons.IH obtain ls where "concatOptions xs = Some ls" "\<forall>a \<in> set ls. a < n"
    by auto
  with x l show ?case by auto
qed

lemma map_filter_id_valid:
  "list_all (pointerValid n) xs \<Longrightarrow> \<forall>a \<in> set (List.map_filter id xs). a < n"
  by (auto simp: List.map_filter_def list_all_iff pointerValid_def)

lemma imagesOfEntry_valid:
  assumes "entryValid (length attrs) j" and "list_all (attributeValid n) attrs"
  shows "\<exists>l. imagesOfEntry attrs j = Some l \<and> (\<forall>a \<in> set l. a < n)"
proof (cases "fst (snd j)")
  case None
  then show ?thesis by (simp add: imagesOfEntry_def)
next
  case (Some sa)
  with assms(1) have sa: "sa < length attrs" by (simp add: entryValid_def pointerValid_def)
  with assms(2) have av: "attributeValid n (attrs ! sa)" by (simp add: list_all_length)
  show ?thesis
  proof (cases "attrs ! sa")
    case (TextureAttribute tex)
    with av have "list_all (pointerValid n) (images tex)" by (simp add: attributeValid_def)
    from map_filter_id_valid[OF this] Some sa TextureAttribute show ?thesis
      by (simp add: imagesOfEntry_def lookup_def)
  next
    case (OtherAttribute obj)
    with Some sa show ?thesis by (simp add: imagesOfEntry_def lookup_def)
  qed
qed

lemma imagesOfStateSet_valid:
  assumes "heapValid w" and "pointerValid (length (stateSets w)) ss"
  shows "\<exists>l. imagesOfStateSet (stateSets w) (attributes w) ss = Some l \<and>
           (\<forall>a \<in> set l. a < length (imageObjs w))"
proof (cases ss)
  case None
  then show ?thesis by (simp add: imagesOfStateSet_def)
next
  case (Some p)
  with assms have p: "p < length (stateSets w)" by (simp add: pointerValid_def)
  with assms(1) have "stateSetValid (length (attributes w)) (stateSets w ! p)"
    by (simp add: heapValid_def list_all_length)
  then have e: "\<forall>j \<in> set (concat (textureAttributeList (stateSets w ! p))).
      entryValid (length (attributes w)) j"
    by (auto simp: stateSetValid_def list_all_iff)
  from assms(1) have av: "list_all (attributeValid (length (imageObjs w))) (attributes w)"
    by (simp add: heapValid_def)
  have "\<forall>x \<in> set (map (imagesOfEntry (attributes w))
      (concat (textureAttributeList (stateSets w ! p)))).
      \<exists>l. x = Some l \<and> (\<forall>a \<in> set l. a < length (imageObjs w))"
    using e imagesOfEntry_valid[OF _ av] by auto
  from concatOptions_valid[OF this] Some p show ?thesis
    by (simp add: imagesOfStateSet_def lookup_def)
qed

lemma imagesOfDrawable_valid:
  assumes "heapValid w" and "drawableValid (length (stateSets w)) d"
  shows "\<exists>l. imagesOfDrawable (stateSets w) (attributes w) d = Some l \<and>
           (\<forall>a \<in> set l. a < length (imageObjs w))"
proof (cases d)
  case None
  then show ?thesis by (simp add: imagesOfDrawable_def)
next
  case (Some dr)
  with assms(2) have "pointerValid (length (stateSets w)) (drawableStateSet dr)"
    by (simp add: drawableValid_def)
  from imagesOfStateSet_valid[OF assms(1) this] Some show ?thesis
    by (simp add: imagesOfDrawable_def)
qed

lemma imagesOfNode_valid:
  assumes v: "heapValid w"
  shows "nodeValid (length (stateSets w)) node \<Longrightarrow>
     \<exists>l. imagesOfNode (stateSets w) (attributes w) node = Some l \<and>
       (\<forall>a \<in> set l. a < length (imageObjs w))"
proof (induction node)
  case (Node node children)
  from Node.prems have p: "pointerValid (length (stateSets w)) (stateSet node)"
    and c: "\<forall>c \<in> set children. nodeValid (length (stateSets w)) c"
    by (simp_all add: list_all_iff)
  have "\<forall>x \<in> set (imagesOfStateSet (stateSets w) (attributes w) (stateSet node) #
      map (imagesOfNode (stateSets w) (attributes w)) children).
      \<exists>l. x = Some l \<and> (\<forall>a \<in> set l. a < length (imageObjs w))"
    using imagesOfStateSet_valid[OF v p] Node.IH c by auto
  from concatOptions_valid[OF this] show ?case by simp
next
  case (Geode geode drawables children)
  from Geode.prems have p: "pointerValid (length (stateSets w)) (stateSet geode)"
    and d: "\<forall>d \<in> set drawables. drawableValid (length (stateSets w)) d"
    and c: "\<forall>c \<in> set children. nodeValid (length (stateSets w)) c"
    by (simp_all add: list_all_iff)
  have "\<forall>x \<in> set (map (imagesOfDrawable (stateSets w) (attributes w)) drawables @
      imagesOfStateSet (stateSets w) (attributes w) (stateSet geode) #
      map (imagesOfNode (stateSets w) (attributes w)) children).
      \<exists>l. x = Some l \<and> (\<forall>a \<in> set l. a < length (imageObjs w))"
    using imagesOfStateSet_valid[OF v p] imagesOfDrawable_valid[OF v] d Geode.IH c by auto
  from concatOptions_valid[OF this] show ?case by simp
qed

lemma writeRefs_apply_Images_Some:
  "\<forall>a \<in> set as. a < length (imageObjs w) \<Longrightarrow>
     \<exists>w'. writeRefs_apply_Images hashString ops writeOptions as w = Some w'"
proof (induction as arbitrary: w)
  case Nil
  then show ?case by simp
next
  case (Cons a as)
  from Cons.prems have a: "a < length (imageObjs w)" by simp
  define r where "r = writeRefs_apply hashString ops writeOptions (imageObjs w ! a) w"
  define w1 where "w1 = (snd r)\<lparr>imageObjs := (imageObjs (snd r))[a := fst r]\<rparr>"
  from a have 1: "writeRefs_apply_Image hashString ops writeOptions a w = Some w1"
    by (simp add: writeRefs_apply_Image_def lookup_def Let_def r_def w1_def)
  have "length (imageObjs w1) = length (imageObjs w)"
    using writeRefs_apply_heap[of hashString ops writeOptions "imageObjs w ! a" w]
    by (simp add: w1_def r_def)
  with Cons.prems have "\<forall>a \<in> set as. a < length (imageObjs w1)" by simp
  from Cons.IH[OF this] 1 show ?case by simp
qed

lemma writeRefs_accept_Some:
  assumes "heapValid w" and "nodeValid (length (stateSets w)) node"
  shows "\<exists>w'. writeRefs_accept hashString ops writeOptions node w = Some w'"
proof -
  from imagesOfNode_valid[OF assms] obtain l where
    l: "imagesOfNode (stateSets w) (attributes w) node = Some l"
    and a: "\<forall>a \<in> set l. a < length (imageObjs w)" by blast
  from writeRefs_apply_Images_Some[OF a, of hashString ops writeOptions] l show ?thesis
    by (simp add: writeRefs_accept_def)
qed

lemma writeNode_Some:
  assumes "wellFormed w node"
  shows "\<exists>node' w'.
           writeNode hashString cloneable ops key node metadata writeOptions w =
             Some (True, node', w') \<and>
           binWrites w' \<noteq> [] \<and> fst (last (binWrites w')) = key"
proof -
  from assms have v: "heapValid (snd (PrepareForCaching_new, w))"
    and n: "nodeValid (length (stateSets (snd (PrepareForCaching_new, w)))) node"
    by (simp_all add: wellFormed_def)
  from accept_traverse_valid(1)[of "(PrepareForCaching_new, w)" node cloneable] v n
  obtain node' s' where a: "accept cloneable node (PrepareForCaching_new, w) = Some (node', s')"
    and v': "heapValid (snd s')" and n': "nodeValid (length (stateSets (snd s'))) node'"
    by blast
  from writeRefs_accept_Some[OF v' n', of hashString ops writeOptions] obtain w2 where
    b: "writeRefs_accept hashString ops writeOptions node' (snd s') = Some w2" by blast
  obtain prep w1 where s': "s' = (prep, w1)" by (cases s') auto
  from a b s' show ?thesis
    by (simp add: writeNode_def Let_def)
qed

text \<open>
  Claim C2, as amended. On a well-formed graph \<open>writeNode\<close> returns, and what it
  returns is \<open>true\<close>, for every cache bin (one whose writes fail included), every clone
  outcome and every hash function; the last write issued to the bin is the write of the
  graph under the given key.
\<close>

theorem writeNode_always_reports_success:
  assumes "wellFormed w node"
  shows "\<exists>node' w'.
           writeNode hashString cloneable ops key node metadata writeOptions w =
             Some (True, node', w') \<and>
           binWrites w' \<noteq> [] \<and> fst (last (binWrites w')) = key"
  using assms by (rule writeNode_Some)

lemma wellFormed_example: "wellFormed exampleWorld exampleNode"
  by (simp add: wellFormed_def heapValid_def stateSetValid_def attributeValid_def
      entryBound_def entryValid_def pointerValid_def drawableValid_def example_defs)

theorem writeNode_always_reports_success_witness:
  "writeNode exampleHash neverCloneable failingBinOps ''graph'' exampleNode [] None exampleWorld
     \<noteq> None \<and>
   fst (the (writeNode exampleHash neverCloneable failingBinOps ''graph'' exampleNode [] None
     exampleWorld)) = True \<and>
   fst (the (writeNode exampleHash alwaysCloneable memBinOps ''graph'' exampleNode [] None
     exampleWorld)) = True"
  using
    writeNode_always_reports_success[OF wellFormed_example, of exampleHash neverCloneable
      failingBinOps "''graph''" "[]" None]
    writeNode_always_reports_success[OF wellFormed_example, of exampleHash alwaysCloneable
      memBinOps "''graph''" "[]" None]
  by auto

text \<open>
  Claim C2 as stated fails: with a bin that refuses every write, the write of the graph
  fails and \<open>writeNode\<close> returns \<open>true\<close>.
\<close>

theorem writeNode_reports_success_on_failed_write:
  "writeNode exampleHash alwaysCloneable failingBinOps ''graph'' exampleNode [] None exampleWorld
     \<noteq> None \<and>
   fst (the (writeNode exampleHash alwaysCloneable failingBinOps ''graph'' exampleNode [] None
     exampleWorld)) = True \<and>
   fst (last (binWrites (snd (snd (the (writeNode exampleHash alwaysCloneable failingBinOps
     ''graph'' exampleNode [] None exampleWorld)))))) = ''graph'' \<and>
   fst (bin_write failingBinOps
     (binState (snd (snd (the (writeNode exampleHash alwaysCloneable failingBinOps ''graph''
        exampleNode [] None exampleWorld)))))
     ''graph''
     (snd (last (binWrites (snd (snd (the (writeNode exampleHash alwaysCloneable failingBinOps
        ''graph'' exampleNode [] None exampleWorld)))))))
     [] None) = False"
proof -
  have f: "\<And>b k obj m opts. fst (bin_write failingBinOps b k obj m opts) = False"
    by (simp add: failingBinOps_def)
  from writeNode_Some[OF wellFormed_example, of exampleHash alwaysCloneable failingBinOps
      "''graph''" "[]" None] f
  show ?thesis by auto
qed

section \<open>The preparation: the entries of the texture slots\<close>

lemma texture_flag_cleared_eq:
  fixes t t' :: Texture
  assumes "userDataContainer t' = userDataContainer t" and "images t' = images t"
  shows "t'\<lparr>unRefImageDataAfterApply := False\<rparr> = t\<lparr>unRefImageDataAfterApply := False\<rparr>"
  using assms by (cases t; cases t') simp

lemma texture_eq:
  fixes t t' :: Texture
  assumes "userDataContainer t' = userDataContainer t" and "images t' = images t"
    and "unRefImageDataAfterApply t' = unRefImageDataAfterApply t"
  shows "t' = t"
  using assms by (cases t; cases t') simp

lemma step_keeps:
  assumes st: "step n w w'"
    and l: "lookup (attributes w) a = Some (TextureAttribute t)"
    and f: "\<not> unRefImageDataAfterApply t"
    and u: "a < n \<or> userDataContainer t = None"
  shows "lookup (attributes w') a = Some (TextureAttribute t)"
proof -
  from l have a: "a < length (attributes w)" and x: "attributes w ! a = TextureAttribute t"
    by (auto simp: lookup_def split: if_splits)
  from st a have r: "attr_rel n a (attributes w ! a) (attributes w' ! a)"
    and a': "a < length (attributes w')"
    by (auto simp: step_def)
  from r x obtain t' where y: "attributes w' ! a = TextureAttribute t'"
    and i: "images t' = images t"
    and f': "unRefImageDataAfterApply t' \<longrightarrow> unRefImageDataAfterApply t"
    and u': "userDataContainer t' = userDataContainer t \<or> (n \<le> a \<and> userDataContainer t' = None)"
    by (cases "attributes w' ! a") (auto simp: attr_rel_def)
  from u u' have "userDataContainer t' = userDataContainer t" by auto
  with i f f' have "t' = t" by (intro texture_eq) auto
  with y a' show ?thesis by (simp add: lookup_def)
qed

lemma entryPrepared_step:
  assumes p: "entryPrepared cloneable (attributes w0) (attributes w) e0 e"
    and st: "step (length (attributes w0)) w w'"
  shows "entryPrepared cloneable (attributes w0) (attributes w') e0 e"
proof (cases "fst (snd e0)")
  case None
  with p show ?thesis by (simp add: entryPrepared_def)
next
  case (Some a)
  show ?thesis
  proof (cases "lookup (attributes w0) a")
    case None
    with p Some show ?thesis by (simp add: entryPrepared_def)
  next
    case l: (Some x)
    then have a: "a < length (attributes w0)" by (simp add: lookup_def split: if_splits)
    show ?thesis
    proof (cases x)
      case (OtherAttribute obj)
      with p Some l show ?thesis by (simp add: entryPrepared_def)
    next
      case (TextureAttribute t)
      from p Some l TextureAttribute
      have o: "lookup (attributes w) a =
          Some (TextureAttribute (t\<lparr>unRefImageDataAfterApply := False\<rparr>))"
        by (simp add: entryPrepared_def)
      from step_keeps[OF st o] a
      have o': "lookup (attributes w') a =
          Some (TextureAttribute (t\<lparr>unRefImageDataAfterApply := False\<rparr>))"
        by simp
      show ?thesis
      proof (cases "cloneable a")
        case False
        with p Some l TextureAttribute o' show ?thesis by (simp add: entryPrepared_def)
      next
        case True
        with p Some l TextureAttribute obtain c where c: "fst (snd e) = Some c"
          and n: "length (attributes w0) \<le> c"
          and k: "lookup (attributes w) c = Some (TextureAttribute
             (t\<lparr>userDataContainer := None, unRefImageDataAfterApply := False\<rparr>))"
          by (auto simp: entryPrepared_def split: option.splits)
        from step_keeps[OF st k]
        have "lookup (attributes w') c = Some (TextureAttribute
             (t\<lparr>userDataContainer := None, unRefImageDataAfterApply := False\<rparr>))"
          by simp
        with p Some l TextureAttribute o' True c n show ?thesis
          by (simp add: entryPrepared_def)
      qed
    qed
  qed
qed

lemma entryAny_step:
  "entryAny cloneable (attributes w0) (attributes w) e0 e \<Longrightarrow>
   step (length (attributes w0)) w w' \<Longrightarrow>
   entryAny cloneable (attributes w0) (attributes w') e0 e"
  unfolding entryAny_def by (blast intro: entryPrepared_step)

lemma entriesPrepared_step:
  "list_all2 (entryPrepared cloneable (attributes w0) (attributes w)) l0 l \<Longrightarrow>
   step (length (attributes w0)) w w' \<Longrightarrow>
   list_all2 (entryPrepared cloneable (attributes w0) (attributes w')) l0 l"
  by (erule list_all2_mono) (rule entryPrepared_step)

lemma entriesAny_step:
  "list_all2 (entryAny cloneable (attributes w0) (attributes w)) l0 l \<Longrightarrow>
   step (length (attributes w0)) w w' \<Longrightarrow>
   list_all2 (entryAny cloneable (attributes w0) (attributes w')) l0 l"
  by (erule list_all2_mono) (rule entryAny_step)

lemma unitsPrepared_step:
  "list_all2 (list_all2 (entryPrepared cloneable (attributes w0) (attributes w))) l0 l \<Longrightarrow>
   step (length (attributes w0)) w w' \<Longrightarrow>
   list_all2 (list_all2 (entryPrepared cloneable (attributes w0) (attributes w'))) l0 l"
  by (erule list_all2_mono) (rule entriesPrepared_step)

lemma unitsAny_step:
  "list_all2 (list_all2 (entryAny cloneable (attributes w0) (attributes w))) l0 l \<Longrightarrow>
   step (length (attributes w0)) w w' \<Longrightarrow>
   list_all2 (list_all2 (entryAny cloneable (attributes w0) (attributes w'))) l0 l"
  by (erule list_all2_mono) (rule entriesAny_step)

lemma unitsPrepared_any:
  "list_all2 (list_all2 (entryPrepared cloneable b a)) l0 l \<Longrightarrow>
   list_all2 (list_all2 (entryAny cloneable b a)) l0 l"
  by (erule list_all2_mono, erule list_all2_mono) (simp add: entryAny_def)

lemma unitsAny_refl: "list_all2 (list_all2 (entryAny cloneable b a)) l l"
  by (simp add: list_all2_refl entryAny_def)


lemma texture_clone_eq:
  fixes t t' :: Texture
  assumes "userDataContainer t' = userDataContainer t" and "images t' = images t"
  shows "t'\<lparr>userDataContainer := None, unRefImageDataAfterApply := False\<rparr> =
         t\<lparr>userDataContainer := None, unRefImageDataAfterApply := False\<rparr>"
  using assms by (cases t; cases t') simp

lemma apply_textureEntry_prepares:
  assumes run: "apply_textureEntry cloneable e s = Some (e', s')"
    and any: "entryAny cloneable (attributes w0) (attributes (snd s)) e0 e"
    and valid: "entryValid (length (attributes w0)) e0"
    and st: "step (length (attributes w0)) w0 (snd s)"
  shows "entryPrepared cloneable (attributes w0) (attributes (snd s')) e0 e'"
proof (cases "fst (snd e0)")
  case None
  with any have "fst (snd e) = None" "fst e = fst e0" "snd (snd e) = snd (snd e0)"
    by (auto simp: entryAny_def entryPrepared_def)
  with run None show ?thesis
    by (auto simp: apply_textureEntry_def entryPrepared_def)
next
  case (Some a)
  with valid have a: "a < length (attributes w0)"
    by (simp add: entryValid_def pointerValid_def)
  then have l0: "lookup (attributes w0) a = Some (attributes w0 ! a)"
    by (simp add: lookup_def)
  from st a have r: "attr_rel (length (attributes w0)) a (attributes w0 ! a) (attributes (snd s) ! a)"
    and a1: "a < length (attributes (snd s))"
    by (auto simp: step_def)
  from any have k: "fst e = fst e0" "snd (snd e) = snd (snd e0)"
    by (auto simp: entryAny_def entryPrepared_def)
  from st have nl: "length (attributes w0) \<le> length (attributes (snd s))"
    by (simp add: step_def)
  show ?thesis
  proof (cases "attributes w0 ! a")
    case (OtherAttribute obj)
    with any Some l0 have sl: "fst (snd e) = Some a"
      by (auto simp: entryAny_def entryPrepared_def)
    from r OtherAttribute obtain obj' where "attributes (snd s) ! a = OtherAttribute obj'"
      by (cases "attributes (snd s) ! a") (auto simp: attr_rel_def)
    with a1 have "lookup (attributes (snd s)) a = Some (OtherAttribute obj')"
      by (simp add: lookup_def)
    with run sl have "e' = e"
      by (auto simp: apply_textureEntry_def split: option.splits)
    with k sl Some l0 OtherAttribute show ?thesis by (simp add: entryPrepared_def)
  next
    case (TextureAttribute t)
    from r TextureAttribute obtain tex where x: "attributes (snd s) ! a = TextureAttribute tex"
      and i: "images tex = images t"
      and u: "userDataContainer tex = userDataContainer t"
      using a by (cases "attributes (snd s) ! a") (auto simp: attr_rel_def)
    from x a1 have la: "lookup (attributes (snd s)) a = Some (TextureAttribute tex)"
      by (simp add: lookup_def)
    note fe = texture_flag_cleared_eq[OF u i]
    note ce = texture_clone_eq[OF u i]
    have direct: ?thesis if sl: "fst (snd e) = Some a"
    proof -
      note t = apply_textureEntry_texture[OF run sl la]
      show ?thesis
      proof (cases "cloneable a")
        case True
        with t a1 a nl k Some l0 TextureAttribute fe ce show ?thesis
          by (simp add: entryPrepared_def lookup_def nth_append)
      next
        case False
        with t a1 a k sl Some l0 TextureAttribute fe show ?thesis
          by (simp add: entryPrepared_def lookup_def)
      qed
    qed
    from any consider "e = e0" | "entryPrepared cloneable (attributes w0) (attributes (snd s)) e0 e"
      by (auto simp: entryAny_def)
    then show ?thesis
    proof cases
      case 1
      with Some direct show ?thesis by simp
    next
      case 2
      show ?thesis
      proof (cases "cloneable a")
        case False
        with 2 Some l0 TextureAttribute have "fst (snd e) = Some a"
          by (simp add: entryPrepared_def)
        then show ?thesis by (rule direct)
      next
        case True
        define tc where "tc = t\<lparr>userDataContainer := None, unRefImageDataAfterApply := False\<rparr>"
        from 2 Some l0 TextureAttribute True obtain c where sl: "fst (snd e) = Some c"
          and n: "length (attributes w0) \<le> c"
          and lc: "lookup (attributes (snd s)) c = Some (TextureAttribute tc)"
          and o: "lookup (attributes (snd s)) a =
              Some (TextureAttribute (t\<lparr>unRefImageDataAfterApply := False\<rparr>))"
          by (auto simp: entryPrepared_def tc_def split: option.splits)
        from lc have c1: "c < length (attributes (snd s))"
          by (simp add: lookup_def split: if_splits)
        have tc: "tc\<lparr>unRefImageDataAfterApply := False\<rparr> = tc"
          "tc\<lparr>userDataContainer := None, unRefImageDataAfterApply := False\<rparr> = tc"
          by (simp_all add: tc_def)
        note t = apply_textureEntry_texture[OF run sl lc, unfolded tc]
        from a n have ne: "a \<noteq> c" by simp
        from o a1 have oa: "attributes (snd s) ! a =
            TextureAttribute (t\<lparr>unRefImageDataAfterApply := False\<rparr>)"
          by (simp add: lookup_def)
        from lc c1 have oc: "attributes (snd s) ! c = TextureAttribute tc"
          by (simp add: lookup_def)
        show ?thesis
        proof (cases "cloneable c")
          case c: True
          with t a1 c1 a n nl ne k Some l0 TextureAttribute True oa show ?thesis
            by (simp add: entryPrepared_def lookup_def nth_append tc_def)
        next
          case c: False
          with t a1 c1 a n ne k sl Some l0 TextureAttribute True oa oc show ?thesis
            by (simp add: entryPrepared_def lookup_def tc_def)
        qed
      qed
    qed
  qed
qed

lemma apply_textureAttributes_prepares:
  "apply_textureAttributes cloneable l s = Some (l', s') \<Longrightarrow>
   list_all2 (entryAny cloneable (attributes w0) (attributes (snd s))) l0 l \<Longrightarrow>
   list_all (entryValid (length (attributes w0))) l0 \<Longrightarrow>
   step (length (attributes w0)) w0 (snd s) \<Longrightarrow>
   list_all2 (entryPrepared cloneable (attributes w0) (attributes (snd s'))) l0 l'"
proof (induction l arbitrary: l0 s l')
  case Nil
  then show ?case by simp
next
  case (Cons e rest)
  from Cons.prems(2) obtain e0 r0 where l0: "l0 = e0 # r0"
    and any: "entryAny cloneable (attributes w0) (attributes (snd s)) e0 e"
    and anys: "list_all2 (entryAny cloneable (attributes w0) (attributes (snd s))) r0 rest"
    by (cases l0) auto
  from Cons.prems(1) obtain e1 s1 r1 where
    1: "apply_textureEntry cloneable e s = Some (e1, s1)"
    and 2: "apply_textureAttributes cloneable rest s1 = Some (r1, s')"
    and l': "l' = e1 # r1"
    by (auto split: option.splits)
  from Cons.prems(3) l0 have v: "entryValid (length (attributes w0)) e0"
    and vs: "list_all (entryValid (length (attributes w0))) r0"
    by simp_all
  from Cons.prems(4) have n: "length (attributes w0) \<le> length (attributes (snd s))"
    by (simp add: step_def)
  from apply_textureEntry_step[OF 1 n] have st1: "step (length (attributes w0)) (snd s) (snd s1)" .
  from step_trans[OF Cons.prems(4) st1] have st01: "step (length (attributes w0)) w0 (snd s1)" .
  from apply_textureAttributes_step[OF 2 step_length[OF st1 n]]
  have st2: "step (length (attributes w0)) (snd s1) (snd s')" .
  from apply_textureEntry_prepares[OF 1 any v Cons.prems(4)]
  have "entryPrepared cloneable (attributes w0) (attributes (snd s1)) e0 e1" .
  from entryPrepared_step[OF this st2]
  have h: "entryPrepared cloneable (attributes w0) (attributes (snd s')) e0 e1" .
  from Cons.IH[OF 2 entriesAny_step[OF anys st1] vs st01]
  have "list_all2 (entryPrepared cloneable (attributes w0) (attributes (snd s'))) r0 r1" .
  with h l0 l' show ?case by simp
qed

lemma apply_textureUnits_prepares:
  "apply_textureUnits cloneable l s = Some (l', s') \<Longrightarrow>
   list_all2 (list_all2 (entryAny cloneable (attributes w0) (attributes (snd s)))) l0 l \<Longrightarrow>
   list_all (list_all (entryValid (length (attributes w0)))) l0 \<Longrightarrow>
   step (length (attributes w0)) w0 (snd s) \<Longrightarrow>
   list_all2 (list_all2 (entryPrepared cloneable (attributes w0) (attributes (snd s')))) l0 l'"
proof (induction l arbitrary: l0 s l')
  case Nil
  then show ?case by simp
next
  case (Cons b rest)
  from Cons.prems(2) obtain b0 r0 where l0: "l0 = b0 # r0"
    and any: "list_all2 (entryAny cloneable (attributes w0) (attributes (snd s))) b0 b"
    and anys: "list_all2 (list_all2 (entryAny cloneable (attributes w0) (attributes (snd s)))) r0 rest"
    by (cases l0) auto
  from Cons.prems(1) obtain b1 s1 r1 where
    1: "apply_textureAttributes cloneable b s = Some (b1, s1)"
    and 2: "apply_textureUnits cloneable rest s1 = Some (r1, s')"
    and l': "l' = b1 # r1"
    by (auto split: option.splits)
  from Cons.prems(3) l0 have v: "list_all (entryValid (length (attributes w0))) b0"
    and vs: "list_all (list_all (entryValid (length (attributes w0)))) r0"
    by simp_all
  from Cons.prems(4) have n: "length (attributes w0) \<le> length (attributes (snd s))"
    by (simp add: step_def)
  from apply_textureAttributes_step[OF 1 n]
  have st1: "step (length (attributes w0)) (snd s) (snd s1)" .
  from step_trans[OF Cons.prems(4) st1] have st01: "step (length (attributes w0)) w0 (snd s1)" .
  from apply_textureUnits_step[OF 2 step_length[OF st1 n]]
  have st2: "step (length (attributes w0)) (snd s1) (snd s')" .
  from apply_textureAttributes_prepares[OF 1 any v Cons.prems(4)]
  have "list_all2 (entryPrepared cloneable (attributes w0) (attributes (snd s1))) b0 b1" .
  from entriesPrepared_step[OF this st2]
  have h: "list_all2 (entryPrepared cloneable (attributes w0) (attributes (snd s'))) b0 b1" .
  from Cons.IH[OF 2 unitsAny_step[OF anys st1] vs st01]
  have "list_all2 (list_all2 (entryPrepared cloneable (attributes w0) (attributes (snd s')))) r0 r1" .
  with h l0 l' show ?case by simp
qed


lemma apply_attributes_stateSets:
  "apply_attributes l s = Some s' \<Longrightarrow> stateSets (snd s') = stateSets (snd s)"
proof (induction l arbitrary: s)
  case Nil
  then show ?case by simp
next
  case (Cons j rest)
  obtain key sa ov where j: "j = (key, (sa, ov))" by (cases j) auto
  from Cons.prems j obtain a s1 where
    1: "applyUserData_attribute a s = Some s1"
    and 2: "apply_attributes rest s1 = Some s'"
    by (auto split: option.splits)
  from applyUserData_attribute_heap[OF 1] Cons.IH[OF 2] show ?case by simp
qed

lemma apply_textureEntry_stateSets:
  assumes run: "apply_textureEntry cloneable j s = Some (j', s')"
  shows "stateSets (snd s') = stateSets (snd s)"
proof (cases "fst (snd j)")
  case None
  with run show ?thesis by (simp add: apply_textureEntry_def)
next
  case (Some sa)
  from run Some obtain x where l: "lookup (attributes (snd s)) sa = Some x"
    by (auto simp: apply_textureEntry_def split: option.splits)
  show ?thesis
  proof (cases x)
    case (OtherAttribute obj)
    with run Some l have "applyUserData_attribute sa s = Some s'"
      by (auto simp: apply_textureEntry_def split: option.splits)
    from applyUserData_attribute_heap[OF this] show ?thesis by simp
  next
    case (TextureAttribute tex)
    from apply_textureEntry_texture[OF run Some l[unfolded TextureAttribute]]
    show ?thesis by simp
  qed
qed

lemma apply_textureAttributes_stateSets:
  "apply_textureAttributes cloneable l s = Some (l', s') \<Longrightarrow>
     stateSets (snd s') = stateSets (snd s)"
proof (induction l arbitrary: s l')
  case Nil
  then show ?case by simp
next
  case (Cons j rest)
  from Cons.prems obtain j1 s1 r1 where
    1: "apply_textureEntry cloneable j s = Some (j1, s1)"
    and 2: "apply_textureAttributes cloneable rest s1 = Some (r1, s')"
    by (auto split: option.splits)
  from apply_textureEntry_stateSets[OF 1] Cons.IH[OF 2] show ?case by simp
qed

lemma apply_textureUnits_stateSets:
  "apply_textureUnits cloneable l s = Some (l', s') \<Longrightarrow>
     stateSets (snd s') = stateSets (snd s)"
proof (induction l arbitrary: s l')
  case Nil
  then show ?case by simp
next
  case (Cons b rest)
  from Cons.prems obtain b1 s1 r1 where
    1: "apply_textureAttributes cloneable b s = Some (b1, s1)"
    and 2: "apply_textureUnits cloneable rest s1 = Some (r1, s')"
    by (auto split: option.splits)
  from apply_textureAttributes_stateSets[OF 1] Cons.IH[OF 2] show ?case by simp
qed

lemma set_pointer: "set (case x of None \<Rightarrow> [] | Some p \<Rightarrow> [p]) = set_option x"
  by (cases x) simp_all

lemma heapValid_units:
  assumes "heapValid w" and "p < length (stateSets w)"
  shows "list_all (list_all (entryValid (length (attributes w))))
           (textureAttributeList (stateSets w ! p))"
proof -
  from assms have "stateSetValid (length (attributes w)) (stateSets w ! p)"
    by (simp add: heapValid_def list_all_length)
  then show ?thesis by (simp add: stateSetValid_def)
qed

lemma prepInv_mono: "prepInv cloneable w0 P w \<Longrightarrow> Q \<subseteq> P \<Longrightarrow> prepInv cloneable w0 Q w"
  by (auto simp: prepInv_def)

lemma prepInv_init: "prepInv cloneable w0 {} w0"
  by (simp add: prepInv_def step_refl unitsAny_refl)

lemma prepInv_same:
  "prepInv cloneable w0 P w \<Longrightarrow> attributes w' = attributes w \<Longrightarrow> stateSets w' = stateSets w \<Longrightarrow>
     prepInv cloneable w0 P w'"
  by (simp add: prepInv_def step_def)

lemma apply_StateSet_prepares:
  assumes run: "apply_StateSet cloneable ss s = Some s'"
    and inv: "prepInv cloneable w0 P (snd s)"
    and hv: "heapValid w0"
    and wf: "wfn (length (attributes w0)) w0"
  shows "prepInv cloneable w0 (P \<union> set_option ss) (snd s')"
proof (cases ss)
  case None
  with run inv show ?thesis by (simp add: apply_StateSet_def)
next
  case (Some p)
  let ?n = "length (attributes w0)"
  from run Some obtain stateset s1 a s2 where
    l: "lookup (stateSets (snd s)) p = Some stateset"
    and 1: "apply_attributes (attributeList stateset) s = Some s1"
    and 2: "apply_textureUnits cloneable (textureAttributeList stateset) s1 = Some (a, s2)"
    and r: "snd s' = (snd s2)\<lparr>stateSets := (stateSets (snd s2))
        [p := fst (applyUserData (stateset\<lparr>textureAttributeList := a\<rparr>) (fst s2))]\<rparr>"
    by (auto simp: apply_StateSet_def Let_def split: option.splits prod.splits)
  from inv have st0: "step ?n w0 (snd s)"
    and len: "length (stateSets (snd s)) = length (stateSets w0)"
    and anyAll: "\<And>q. q < length (stateSets w0) \<Longrightarrow>
        list_all2 (list_all2 (entryAny cloneable (attributes w0) (attributes (snd s))))
          (textureAttributeList (stateSets w0 ! q)) (textureAttributeList (stateSets (snd s) ! q))"
    and prepP: "\<And>q. q \<in> P \<Longrightarrow> q < length (stateSets w0) \<and>
        list_all2 (list_all2 (entryPrepared cloneable (attributes w0) (attributes (snd s))))
          (textureAttributeList (stateSets w0 ! q)) (textureAttributeList (stateSets (snd s) ! q))"
    by (auto simp: prepInv_def)
  from l len have p: "p < length (stateSets w0)" and ss: "stateSets (snd s) ! p = stateset"
    by (auto simp: lookup_def split: if_splits)
  from wfn_step[OF wf st0] have wfs: "wfn ?n (snd s)" .
  then have n: "?n \<le> length (attributes (snd s))" by (simp add: wfn_def)
  from p ss wfs len have "okList ?n (snd s) (attributeList stateset)"
    by (auto simp: wfn_def)
  from apply_attributes_step[OF 1 this n] have st1: "step ?n (snd s) (snd s1)" .
  from apply_textureUnits_step[OF 2 step_length[OF st1 n]] have st2: "step ?n (snd s1) (snd s2)" .
  from step_trans[OF st1 st2] have st: "step ?n (snd s) (snd s2)" .
  from step_trans[OF st0 st1] have st01: "step ?n w0 (snd s1)" .
  have sets: "stateSets (snd s2) = stateSets (snd s)"
    using apply_attributes_stateSets[OF 1] apply_textureUnits_stateSets[OF 2] by simp
  have attrs: "attributes (snd s') = attributes (snd s2)" using r by simp
  have sets': "stateSets (snd s') = (stateSets (snd s))
        [p := fst (applyUserData (stateset\<lparr>textureAttributeList := a\<rparr>) (fst s2))]"
    using r sets by simp
  have atp: "textureAttributeList (stateSets (snd s') ! p) = a"
    using sets' p len by (simp add: applyUserData_def)
  have other: "stateSets (snd s') ! q = stateSets (snd s) ! q" if "q \<noteq> p" for q
    using sets' that by simp
  from unitsAny_step[OF anyAll[OF p] st1] ss
  have "list_all2 (list_all2 (entryAny cloneable (attributes w0) (attributes (snd s1))))
          (textureAttributeList (stateSets w0 ! p)) (textureAttributeList stateset)"
    by simp
  from apply_textureUnits_prepares[OF 2 this heapValid_units[OF hv p] st01]
  have new: "list_all2 (list_all2 (entryPrepared cloneable (attributes w0) (attributes (snd s'))))
          (textureAttributeList (stateSets w0 ! p)) (textureAttributeList (stateSets (snd s') ! p))"
    unfolding atp attrs .
  have A: "list_all2 (list_all2 (entryAny cloneable (attributes w0) (attributes (snd s'))))
          (textureAttributeList (stateSets w0 ! q)) (textureAttributeList (stateSets (snd s') ! q))"
    if q: "q < length (stateSets w0)" for q
  proof (cases "q = p")
    case True
    with new show ?thesis by (simp add: unitsPrepared_any)
  next
    case False
    from unitsAny_step[OF anyAll[OF q] st] other[OF False] attrs show ?thesis by simp
  qed
  have B: "q < length (stateSets w0) \<and>
        list_all2 (list_all2 (entryPrepared cloneable (attributes w0) (attributes (snd s'))))
          (textureAttributeList (stateSets w0 ! q)) (textureAttributeList (stateSets (snd s') ! q))"
    if q: "q \<in> P \<union> set_option ss" for q
  proof (cases "q = p")
    case True
    with new p show ?thesis by simp
  next
    case False
    with q Some have qP: "q \<in> P" by simp
    from prepP[OF qP] unitsPrepared_step[OF _ st] other[OF False] attrs show ?thesis by simp
  qed
  from step_trans[OF st0 apply_StateSet_step[OF run wfs]] have C: "step ?n w0 (snd s')" .
  have D: "length (stateSets (snd s')) = length (stateSets w0)"
    using sets' len by simp
  from A B C D show ?thesis unfolding prepInv_def by blast
qed

lemma apply_Drawable_prepares:
  assumes run: "apply_Drawable cloneable d s = Some (d', s')"
    and inv: "prepInv cloneable w0 P (snd s)"
    and hv: "heapValid w0"
    and wf: "wfn (length (attributes w0)) w0"
  shows "prepInv cloneable w0 (P \<union> set (stateSetsOfDrawable d)) (snd s')"
proof (cases d)
  case None
  with run inv show ?thesis by (simp add: apply_Drawable_def stateSetsOfDrawable_def)
next
  case (Some dr)
  with run obtain s1 where 1: "apply_StateSet cloneable (drawableStateSet dr) s = Some s1"
    and e: "snd s' = snd s1"
    by (auto simp: apply_Drawable_def Let_def split: option.splits prod.splits)
  have "set (stateSetsOfDrawable d) = set_option (drawableStateSet dr)"
    using Some by (simp add: stateSetsOfDrawable_def set_pointer)
  with apply_StateSet_prepares[OF 1 inv hv wf] e show ?thesis by simp
qed

lemma apply_Drawables_prepares:
  "apply_Drawables cloneable l s = Some (l', s') \<Longrightarrow> prepInv cloneable w0 P (snd s) \<Longrightarrow>
   heapValid w0 \<Longrightarrow> wfn (length (attributes w0)) w0 \<Longrightarrow>
   prepInv cloneable w0 (P \<union> set (concat (map stateSetsOfDrawable l))) (snd s')"
proof (induction l arbitrary: s l' P)
  case Nil
  then show ?case by simp
next
  case (Cons d rest)
  from Cons.prems(1) obtain d1 s1 r1 where
    1: "apply_Drawable cloneable d s = Some (d1, s1)"
    and 2: "apply_Drawables cloneable rest s1 = Some (r1, s')"
    by (auto split: option.splits)
  from apply_Drawable_prepares[OF 1 Cons.prems(2,3,4)]
  have "prepInv cloneable w0 (P \<union> set (stateSetsOfDrawable d)) (snd s1)" .
  from Cons.IH[OF 2 this Cons.prems(3,4)] show ?case by (simp add: Un_assoc)
qed

lemma accept_traverse_prepares:
  assumes hv: "heapValid w0" and wf: "wfn (length (attributes w0)) w0"
  shows "(accept cloneable node s = Some (node', s') \<longrightarrow> prepInv cloneable w0 P (snd s) \<longrightarrow>
            prepInv cloneable w0 (P \<union> set (stateSetsOf node)) (snd s'))"
    and "(traverse cloneable children s = Some (children', s') \<longrightarrow>
            prepInv cloneable w0 P (snd s) \<longrightarrow>
            prepInv cloneable w0 (P \<union> set (concat (map stateSetsOf children))) (snd s'))"
proof (induction cloneable node s and cloneable children s arbitrary: node' s' P and children' s' P
    rule: accept_traverse.induct)
  case (1 cloneable node children s)
  show ?case
  proof (intro impI)
    assume run: "accept cloneable (Node node children) s = Some (node', s')"
      and inv: "prepInv cloneable w0 P (snd s)"
    from run obtain s1 c2 where
      a: "apply_StateSet cloneable (stateSet node) s = Some s1"
      and b: "traverse cloneable children (snd (applyUserData node (fst s1)), snd s1) = Some (c2, s')"
      by (auto simp: Let_def split: option.splits prod.splits)
    from apply_StateSet_prepares[OF a inv hv wf]
    have i1: "prepInv cloneable w0 (P \<union> set_option (stateSet node)) (snd s1)" .
    obtain node1 v1 where au: "applyUserData node (fst s1) = (node1, v1)"
      by (cases "applyUserData node (fst s1)") auto
    from "1.IH"[OF a au[symmetric] refl, of c2 s' "P \<union> set_option (stateSet node)"] b au i1
    have "prepInv cloneable w0
        ((P \<union> set_option (stateSet node)) \<union> set (concat (map stateSetsOf children))) (snd s')"
      by simp
    moreover have "set (stateSetsOf (Node node children)) =
        set_option (stateSet node) \<union> set (concat (map stateSetsOf children))"
      by (simp add: set_pointer)
    ultimately show "prepInv cloneable w0 (P \<union> set (stateSetsOf (Node node children))) (snd s')"
      by (simp only: Un_assoc)
  qed
next
  case (2 cloneable geode drawables children s)
  show ?case
  proof (intro impI)
    assume run: "accept cloneable (Geode geode drawables children) s = Some (node', s')"
      and inv: "prepInv cloneable w0 P (snd s)"
    from run obtain d0 s0 s1 c2 where
      d: "apply_Drawables cloneable drawables s = Some (d0, s0)"
      and a: "apply_StateSet cloneable (stateSet geode) s0 = Some s1"
      and b: "traverse cloneable children (snd (applyUserData geode (fst s1)), snd s1) = Some (c2, s')"
      by (auto simp: Let_def split: option.splits prod.splits)
    let ?D = "set (concat (map stateSetsOfDrawable drawables))"
    from apply_Drawables_prepares[OF d inv hv wf]
    have i0: "prepInv cloneable w0 (P \<union> ?D) (snd s0)" .
    from apply_StateSet_prepares[OF a i0 hv wf]
    have i1: "prepInv cloneable w0 ((P \<union> ?D) \<union> set_option (stateSet geode)) (snd s1)" .
    obtain node1 v1 where au: "applyUserData geode (fst s1) = (node1, v1)"
      by (cases "applyUserData geode (fst s1)") auto
    from "2.IH"[OF d refl a au[symmetric] refl, of c2 s'
        "(P \<union> ?D) \<union> set_option (stateSet geode)"] b au i1
    have "prepInv cloneable w0
        (((P \<union> ?D) \<union> set_option (stateSet geode)) \<union> set (concat (map stateSetsOf children)))
        (snd s')"
      by simp
    moreover have "set (stateSetsOf (Geode geode drawables children)) =
        ?D \<union> (set_option (stateSet geode) \<union> set (concat (map stateSetsOf children)))"
      by (simp add: set_pointer)
    ultimately show
      "prepInv cloneable w0 (P \<union> set (stateSetsOf (Geode geode drawables children))) (snd s')"
      by (simp only: Un_assoc)
  qed
next
  case (3 cloneable s)
  show ?case by simp
next
  case (4 cloneable child rest s)
  show ?case
  proof (intro impI)
    assume run: "traverse cloneable (child # rest) s = Some (children', s')"
      and inv: "prepInv cloneable w0 P (snd s)"
    from run obtain c1 s1 r1 where
      a: "accept cloneable child s = Some (c1, s1)"
      and b: "traverse cloneable rest s1 = Some (r1, s')"
      by (auto split: option.splits)
    from "4.IH"(1)[of c1 s1 P] a inv
    have i1: "prepInv cloneable w0 (P \<union> set (stateSetsOf child)) (snd s1)" by simp
    from "4.IH"(2)[OF a refl, of r1 s' "P \<union> set (stateSetsOf child)"] b i1
    have "prepInv cloneable w0
        ((P \<union> set (stateSetsOf child)) \<union> set (concat (map stateSetsOf rest))) (snd s')"
      by simp
    then show "prepInv cloneable w0 (P \<union> set (concat (map stateSetsOf (child # rest)))) (snd s')"
      by (simp add: Un_assoc)
  qed
qed

lemma prepare_slots:
  assumes run: "accept cloneable node (v, w) = Some (node', v', w')"
    and hv: "heapValid w"
    and wf: "attributeListsHoldNoTexture w"
  shows "length (stateSets w') = length (stateSets w) \<and>
         (\<forall>p \<in> set (stateSetsOf node).
            list_all2 (list_all2 (entryPrepared cloneable (attributes w) (attributes w')))
              (textureAttributeList (stateSets w ! p)) (textureAttributeList (stateSets w' ! p)))"
proof -
  from accept_traverse_prepares(1)[OF hv noTexture_wfn[OF wf],
      of cloneable node "(v, w)" node' "(v', w')" "{}"] run prepInv_init[of cloneable w]
  have "prepInv cloneable w ({} \<union> set (stateSetsOf node)) w'" by simp
  then show ?thesis by (simp add: prepInv_def)
qed

section \<open>The preparation: originals keep their user data\<close>

text \<open>
  Claim C1, as amended. On a well-formed graph whose attribute lists hold no texture, the
  preparation returns, and afterwards every texture that was in the store before keeps
  its user data and its images, and its release flag has at most been cleared; every
  attribute the run has added is a texture without user data and with the flag cleared.
  The store has as many state sets as before, and in every state set the visit reaches,
  the texture attribute lists after the run are the lists before it, entry by entry, with
  the clones substituted: an entry that referred to a texture refers to a new object, which
  is that texture with the flag cleared and without user data, when the texture can be
  cloned, and to the texture itself when it cannot; either way the original is, after the
  run, what it was before with the flag cleared and nothing else changed.
  For one entry of a texture slot that refers to a texture: the flag of the original is
  cleared in place; if the clone succeeds, the entry refers to the clone, a new object
  with the flag cleared and no user data; if the clone fails, the entry is unchanged, no
  object is added and a warning is logged.
\<close>

theorem PrepareForCaching_strips_clones_only:
  assumes wformed: "wellFormed w node"
    and wf: "attributeListsHoldNoTexture w"
    and tex: "lookup (attributes w) a = Some (TextureAttribute t)"
    and valid: "heapValid (snd s)"
    and slot: "fst (snd j) = Some sa"
    and orig: "lookup (attributes (snd s)) sa = Some (TextureAttribute tex)"
  shows "(\<exists>node' v' w'. accept cloneable node (v, w) = Some (node', v', w') \<and>
            (\<exists>t'. lookup (attributes w') a = Some (TextureAttribute t') \<and>
               userDataContainer t' = userDataContainer t \<and> images t' = images t \<and>
               (unRefImageDataAfterApply t' \<longrightarrow> unRefImageDataAfterApply t)) \<and>
            (\<forall>c. length (attributes w) \<le> c \<and> c < length (attributes w') \<longrightarrow>
               (\<exists>tc. attributes w' ! c = TextureAttribute tc \<and>
                  userDataContainer tc = None \<and> \<not> unRefImageDataAfterApply tc)) \<and>
            length (stateSets w') = length (stateSets w) \<and>
            (\<forall>p \<in> set (stateSetsOf node).
               list_all2 (list_all2 (entryPrepared cloneable (attributes w) (attributes w')))
                 (textureAttributeList (stateSets w ! p))
                 (textureAttributeList (stateSets w' ! p)))) \<and>
         (\<exists>j' s'. apply_textureEntry cloneable j s = Some (j', s') \<and>
            lookup (attributes (snd s')) sa =
              Some (TextureAttribute (tex\<lparr>unRefImageDataAfterApply := False\<rparr>)) \<and>
            (if cloneable sa
             then j' = (fst j, (Some (length (attributes (snd s))), snd (snd j))) \<and>
                  lookup (attributes (snd s')) (length (attributes (snd s))) =
                    Some (TextureAttribute
                      (tex\<lparr>userDataContainer := None, unRefImageDataAfterApply := False\<rparr>))
             else j' = j \<and> length (attributes (snd s')) = length (attributes (snd s)) \<and>
                  logged (snd s') =
                    logged (snd s) @
                      [OE_WARN ''[PrepareForCaching] Texture clone failed.\<newline>'']))"
proof -
  from wformed have hv: "heapValid w" by (simp add: wellFormed_def)
  from wformed have "heapValid (snd (v, w))" "nodeValid (length (stateSets (snd (v, w)))) node"
    by (simp_all add: wellFormed_def)
  with accept_traverse_valid(1)[of "(v, w)" node cloneable]
  obtain node' v' w' where run: "accept cloneable node (v, w) = Some (node', v', w')"
    by auto
  note 1 = prepare_frame[OF run wf tex]
  note 3 = prepare_slots[OF run hv wf]
  from orig have "sa < length (attributes (snd s))"
    by (simp add: lookup_def split: if_splits)
  with slot have "entryValid (length (attributes (snd s))) j"
    by (simp add: entryValid_def pointerValid_def)
  from apply_textureEntry_Some[OF valid this, of cloneable] obtain j' s' where
    entry: "apply_textureEntry cloneable j s = Some (j', s')" by (metis surj_pair)
  note 2 = entry_frame[OF entry slot orig]
  have A: "\<exists>node' v' w'. accept cloneable node (v, w) = Some (node', v', w') \<and>
            (\<exists>t'. lookup (attributes w') a = Some (TextureAttribute t') \<and>
               userDataContainer t' = userDataContainer t \<and> images t' = images t \<and>
               (unRefImageDataAfterApply t' \<longrightarrow> unRefImageDataAfterApply t)) \<and>
            (\<forall>c. length (attributes w) \<le> c \<and> c < length (attributes w') \<longrightarrow>
               (\<exists>tc. attributes w' ! c = TextureAttribute tc \<and>
                  userDataContainer tc = None \<and> \<not> unRefImageDataAfterApply tc)) \<and>
            length (stateSets w') = length (stateSets w) \<and>
            (\<forall>p \<in> set (stateSetsOf node).
               list_all2 (list_all2 (entryPrepared cloneable (attributes w) (attributes w')))
                 (textureAttributeList (stateSets w ! p))
                 (textureAttributeList (stateSets w' ! p)))"
    using run 1 3 by blast
  from entry 2 have B: "\<exists>j' s'. apply_textureEntry cloneable j s = Some (j', s') \<and>
            lookup (attributes (snd s')) sa =
              Some (TextureAttribute (tex\<lparr>unRefImageDataAfterApply := False\<rparr>)) \<and>
            (if cloneable sa
             then j' = (fst j, (Some (length (attributes (snd s))), snd (snd j))) \<and>
                  lookup (attributes (snd s')) (length (attributes (snd s))) =
                    Some (TextureAttribute
                      (tex\<lparr>userDataContainer := None, unRefImageDataAfterApply := False\<rparr>))
             else j' = j \<and> length (attributes (snd s')) = length (attributes (snd s)) \<and>
                  logged (snd s') =
                    logged (snd s) @
                      [OE_WARN ''[PrepareForCaching] Texture clone failed.\<newline>''])"
    by blast
  from A B show ?thesis by (rule conjI)
qed

lemma heapValid_example: "heapValid (snd (PrepareForCaching_new, exampleWorld))"
  using wellFormed_example by (simp add: wellFormed_def)

theorem PrepareForCaching_strips_clones_only_witness:
  "accept alwaysCloneable exampleNode (PrepareForCaching_new, exampleWorld) \<noteq> None \<and>
   lookup (attributes (snd (snd (the (accept alwaysCloneable exampleNode
       (PrepareForCaching_new, exampleWorld)))))) 0 =
     Some (TextureAttribute (exampleTexture\<lparr>unRefImageDataAfterApply := False\<rparr>)) \<and>
   lookup (attributes (snd (snd (the (accept alwaysCloneable exampleNode
       (PrepareForCaching_new, exampleWorld)))))) 3 =
     Some (TextureAttribute (exampleTexture\<lparr>userDataContainer := None,
       unRefImageDataAfterApply := False\<rparr>)) \<and>
   apply_textureEntry alwaysCloneable exampleEntry (PrepareForCaching_new, exampleWorld) \<noteq> None \<and>
   lookup (attributes (snd (snd (the (apply_textureEntry alwaysCloneable exampleEntry
       (PrepareForCaching_new, exampleWorld)))))) 0 =
     Some (TextureAttribute (exampleTexture\<lparr>unRefImageDataAfterApply := False\<rparr>)) \<and>
   fst (the (apply_textureEntry alwaysCloneable exampleEntry
       (PrepareForCaching_new, exampleWorld))) = ((1, 0), (Some 2, 0)) \<and>
   lookup (attributes (snd (snd (the (apply_textureEntry alwaysCloneable exampleEntry
       (PrepareForCaching_new, exampleWorld)))))) 2 =
     Some (TextureAttribute (exampleTexture\<lparr>userDataContainer := None,
       unRefImageDataAfterApply := False\<rparr>)) \<and>
   apply_textureEntry neverCloneable exampleEntry (PrepareForCaching_new, exampleWorld) \<noteq> None \<and>
   lookup (attributes (snd (snd (the (apply_textureEntry neverCloneable exampleEntry
       (PrepareForCaching_new, exampleWorld)))))) 0 =
     Some (TextureAttribute (exampleTexture\<lparr>unRefImageDataAfterApply := False\<rparr>)) \<and>
   fst (the (apply_textureEntry neverCloneable exampleEntry
       (PrepareForCaching_new, exampleWorld))) = exampleEntry \<and>
   stateSetsOf exampleNode = [0, 0] \<and>
   textureAttributeList (stateSets exampleWorld ! 0) = [[((1, 0), (Some 0, 0))]] \<and>
   textureAttributeList (stateSets (snd (snd (the (accept alwaysCloneable exampleNode
       (PrepareForCaching_new, exampleWorld))))) ! 0) = [[((1, 0), (Some 3, 0))]] \<and>
   accept neverCloneable exampleNode (PrepareForCaching_new, exampleWorld) \<noteq> None \<and>
   textureAttributeList (stateSets (snd (snd (the (accept neverCloneable exampleNode
       (PrepareForCaching_new, exampleWorld))))) ! 0) = [[((1, 0), (Some 0, 0))]]"
proof -
  have wf: "attributeListsHoldNoTexture exampleWorld"
    by (simp add: attributeListsHoldNoTexture_def example_defs lookup_def)
  have tex: "lookup (attributes exampleWorld) 0 = Some (TextureAttribute exampleTexture)"
    by (simp add: exampleWorld_def lookup_def)
  have slot: "fst (snd exampleEntry) = Some 0"
    by (simp add: exampleEntry_def)
  have orig: "lookup (attributes (snd (PrepareForCaching_new, exampleWorld))) 0 =
      Some (TextureAttribute exampleTexture)"
    by (simp add: exampleWorld_def lookup_def)
  have len: "length (attributes (snd (PrepareForCaching_new, exampleWorld))) = 2"
    by (simp add: exampleWorld_def)
  note A = PrepareForCaching_strips_clones_only[OF wellFormed_example wf tex
      heapValid_example slot orig, of alwaysCloneable PrepareForCaching_new]
  note B = PrepareForCaching_strips_clones_only[OF wellFormed_example wf tex
      heapValid_example slot orig, of neverCloneable PrepareForCaching_new]
  have a0: "accept alwaysCloneable exampleNode (PrepareForCaching_new, exampleWorld) \<noteq> None"
    using A by auto
  have a1: "lookup (attributes (snd (snd (the (accept alwaysCloneable exampleNode
       (PrepareForCaching_new, exampleWorld)))))) 0 =
     Some (TextureAttribute (exampleTexture\<lparr>unRefImageDataAfterApply := False\<rparr>))"
    unfolding accept_example_cloned
    by (simp add: exampleWorldCloned_def exampleWorld_def lookup_def)
  have a2: "lookup (attributes (snd (snd (the (accept alwaysCloneable exampleNode
       (PrepareForCaching_new, exampleWorld)))))) 3 =
     Some (TextureAttribute (exampleTexture\<lparr>userDataContainer := None,
       unRefImageDataAfterApply := False\<rparr>))"
    unfolding accept_example_cloned
    by (simp add: exampleWorldCloned_def exampleWorld_def lookup_def)
  from A[THEN conjunct2] obtain ja sa where
    ea: "apply_textureEntry alwaysCloneable exampleEntry (PrepareForCaching_new, exampleWorld) =
       Some (ja, sa)"
    and la: "lookup (attributes (snd sa)) 0 =
       Some (TextureAttribute (exampleTexture\<lparr>unRefImageDataAfterApply := False\<rparr>))"
    and ia: "if alwaysCloneable 0
       then ja = (fst exampleEntry,
              (Some (length (attributes (snd (PrepareForCaching_new, exampleWorld)))),
               snd (snd exampleEntry))) \<and>
            lookup (attributes (snd sa))
              (length (attributes (snd (PrepareForCaching_new, exampleWorld)))) =
              Some (TextureAttribute (exampleTexture\<lparr>userDataContainer := None,
                unRefImageDataAfterApply := False\<rparr>))
       else ja = exampleEntry \<and>
            length (attributes (snd sa)) =
              length (attributes (snd (PrepareForCaching_new, exampleWorld))) \<and>
            logged (snd sa) = logged (snd (PrepareForCaching_new, exampleWorld)) @
              [OE_WARN ''[PrepareForCaching] Texture clone failed.\<newline>'']"
    by blast
  have a3: "apply_textureEntry alwaysCloneable exampleEntry (PrepareForCaching_new, exampleWorld)
        \<noteq> None \<and>
      lookup (attributes (snd (snd (the (apply_textureEntry alwaysCloneable exampleEntry
       (PrepareForCaching_new, exampleWorld)))))) 0 =
     Some (TextureAttribute (exampleTexture\<lparr>unRefImageDataAfterApply := False\<rparr>)) \<and>
     fst (the (apply_textureEntry alwaysCloneable exampleEntry
       (PrepareForCaching_new, exampleWorld))) = ((1, 0), (Some 2, 0)) \<and>
     lookup (attributes (snd (snd (the (apply_textureEntry alwaysCloneable exampleEntry
       (PrepareForCaching_new, exampleWorld)))))) 2 =
     Some (TextureAttribute (exampleTexture\<lparr>userDataContainer := None,
       unRefImageDataAfterApply := False\<rparr>))"
    using la ia unfolding ea len
    by (simp add: alwaysCloneable_def exampleEntry_def)
  from B[THEN conjunct2] obtain jb sb where
    eb: "apply_textureEntry neverCloneable exampleEntry (PrepareForCaching_new, exampleWorld) =
       Some (jb, sb)"
    and lb: "lookup (attributes (snd sb)) 0 =
       Some (TextureAttribute (exampleTexture\<lparr>unRefImageDataAfterApply := False\<rparr>))"
    and ib: "if neverCloneable 0
       then jb = (fst exampleEntry,
              (Some (length (attributes (snd (PrepareForCaching_new, exampleWorld)))),
               snd (snd exampleEntry))) \<and>
            lookup (attributes (snd sb))
              (length (attributes (snd (PrepareForCaching_new, exampleWorld)))) =
              Some (TextureAttribute (exampleTexture\<lparr>userDataContainer := None,
                unRefImageDataAfterApply := False\<rparr>))
       else jb = exampleEntry \<and>
            length (attributes (snd sb)) =
              length (attributes (snd (PrepareForCaching_new, exampleWorld))) \<and>
            logged (snd sb) = logged (snd (PrepareForCaching_new, exampleWorld)) @
              [OE_WARN ''[PrepareForCaching] Texture clone failed.\<newline>'']"
    by blast
  have b3: "apply_textureEntry neverCloneable exampleEntry (PrepareForCaching_new, exampleWorld)
        \<noteq> None \<and>
     lookup (attributes (snd (snd (the (apply_textureEntry neverCloneable exampleEntry
       (PrepareForCaching_new, exampleWorld)))))) 0 =
     Some (TextureAttribute (exampleTexture\<lparr>unRefImageDataAfterApply := False\<rparr>)) \<and>
     fst (the (apply_textureEntry neverCloneable exampleEntry
       (PrepareForCaching_new, exampleWorld))) = exampleEntry"
    using lb ib unfolding eb
    by (simp add: neverCloneable_def)
  have c0: "stateSetsOf exampleNode = [0, 0]"
    by (simp add: exampleNode_def stateSetsOfDrawable_def)
  have c1: "textureAttributeList (stateSets exampleWorld ! 0) = [[((1, 0), (Some 0, 0))]]"
    by (simp add: exampleWorld_def exampleStateSet_def)
  have c2: "textureAttributeList (stateSets (snd (snd (the (accept alwaysCloneable exampleNode
       (PrepareForCaching_new, exampleWorld))))) ! 0) = [[((1, 0), (Some 3, 0))]]"
    unfolding accept_example_cloned
    by (simp add: exampleWorldCloned_def exampleWorld_def exampleStateSet_def)
  have b0: "accept neverCloneable exampleNode (PrepareForCaching_new, exampleWorld) \<noteq> None"
    using B by auto
  have c3: "textureAttributeList (stateSets (snd (snd (the (accept neverCloneable exampleNode
       (PrepareForCaching_new, exampleWorld))))) ! 0) = [[((1, 0), (Some 0, 0))]]"
    unfolding accept_example_neverCloneable
    by (simp add: exampleWorld_def exampleStateSet_def)
  from a0 a1 a2 a3 b3 c0 c1 c2 b0 c3 show ?thesis by blast
qed

text \<open>
  Claim C1 as stated fails: with a texture whose release flag is set and a clone that
  fails, the flag of the original texture is cleared by the run.
\<close>

theorem PrepareForCaching_mutates_original_flag:
  "unRefImageDataAfterApply exampleTexture \<and>
   attributes exampleWorld ! 0 = TextureAttribute exampleTexture \<and>
   accept neverCloneable exampleNode (PrepareForCaching_new, exampleWorld) \<noteq> None \<and>
   attributes (snd (snd (the (accept neverCloneable exampleNode
       (PrepareForCaching_new, exampleWorld))))) ! 0 =
     TextureAttribute (exampleTexture\<lparr>unRefImageDataAfterApply := False\<rparr>) \<and>
   attributes (snd (snd (the (accept neverCloneable exampleNode
       (PrepareForCaching_new, exampleWorld))))) ! 0 \<noteq> attributes exampleWorld ! 0"
  by (simp add: accept_example_neverCloneable) (simp add: exampleWorld_def exampleTexture_def)

end
